theory Spec2Isabelle
  imports Main "HOL-Library.Word"
begin

unbundle bit_operations_syntax

section \<open>Machine integers and C strings\<close>

text \<open>
  The source is C for a 32-bit embedded target.  \<open>uint32_t\<close> and FatFs's \<open>DWORD\<close> are
  \<open>32 word\<close>, FatFs's \<open>WORD\<close> is \<open>16 word\<close>; \<open>int\<close> values that stay small (return codes,
  counters, table indices) are \<open>int\<close> or \<open>nat\<close>.

  A C string is a \<open>char list\<close> whose terminating NUL is implicit: reading at the end of the
  list yields \<open>NUL\<close> (\<open>peek\<close>), and every end-of-string test of the source is a test of the
  character read, as in the source.  A null pointer is \<open>None\<close>.
\<close>

type_synonym u32 = "32 word"
type_synonym u16 = "16 word"

definition NUL :: char where
  "NUL = CHR 0x00"

fun peek :: "string \<Rightarrow> char" where
  "peek [] = NUL"
| "peek (c # cs) = c"

text \<open>\<open>toupper\<close> of the C locale: the letters a..z (97..122) move down by 32.\<close>

definition toupper :: "char \<Rightarrow> char" where
  "toupper c = (let n = (of_char c :: nat) in if 97 \<le> n \<and> n \<le> 122 then char_of (n - 32) else c)"

text \<open>\<open>strlen\<close>: the characters before the first NUL.\<close>

definition strlen :: "string \<Rightarrow> nat" where
  "strlen s = length (takeWhile (\<lambda>c. c \<noteq> NUL) s)"

lemma toupper_NUL_iff: "toupper c = NUL \<longleftrightarrow> c = NUL"
proof -
  have "char_of (of_char c - 32 :: nat) \<noteq> NUL"
    if "97 \<le> (of_char c :: nat)" "(of_char c :: nat) \<le> 122"
  proof
    assume "char_of (of_char c - 32 :: nat) = NUL"
    then have "(of_char (char_of (of_char c - 32 :: nat)) :: nat) = of_char NUL" by simp
    then show False using that by (simp add: NUL_def)
  qed
  moreover have "c \<noteq> NUL" if "97 \<le> (of_char c :: nat)"
    using that by (auto simp: NUL_def)
  ultimately show ?thesis by (auto simp: toupper_def Let_def)
qed

lemma peek_not_NUL: "peek s \<noteq> NUL \<Longrightarrow> s \<noteq> []"
  by (cases s) auto


section \<open>Inode encoder (vfs.h)\<close>

text \<open>
  The macros of vfs.h.  \<open>INODE_STORAGE_BITS\<close> and \<open>INODE_FOLDER_BITS\<close> are configuration
  constants (\<open>#ifndef\<close> defaults 2 and 10; the configuration template sets 1 and 7), so the
  macros take them as the parameters \<open>sb\<close> and \<open>fb\<close>.  \<open>UINT32_MAX\<close> is the word \<open>- 1\<close>,
  \<open>>>\<close> on \<open>uint32_t\<close> is \<open>drop_bit\<close> and \<open><<\<close> is \<open>push_bit\<close>.
\<close>

definition INODE_STORAGE_BITS :: nat where
  "INODE_STORAGE_BITS = 2"

definition INODE_FOLDER_BITS :: nat where
  "INODE_FOLDER_BITS = 10"

definition INODE_ITEM_BITS :: "nat \<Rightarrow> nat \<Rightarrow> nat" where
  "INODE_ITEM_BITS sb fb = 32 - fb - sb"

definition INODE_ITEM_MASK :: "nat \<Rightarrow> nat \<Rightarrow> u32" where
  "INODE_ITEM_MASK sb fb = drop_bit (fb + sb) (- 1)"

definition INODE_STORAGE_MASK :: "nat \<Rightarrow> nat \<Rightarrow> u32" where
  "INODE_STORAGE_MASK sb fb = push_bit (INODE_ITEM_BITS sb fb + fb) (- 1)"

definition INODE_FOLDER_MASK :: "nat \<Rightarrow> nat \<Rightarrow> u32" where
  "INODE_FOLDER_MASK sb fb = drop_bit sb (- 1) AND push_bit (INODE_ITEM_BITS sb fb) (- 1)"

definition INODE_STORAGE :: "nat \<Rightarrow> nat \<Rightarrow> u32 \<Rightarrow> u32" where
  "INODE_STORAGE sb fb x = drop_bit (32 - sb) x"

definition INODE_FOLDER :: "nat \<Rightarrow> nat \<Rightarrow> u32 \<Rightarrow> u32" where
  "INODE_FOLDER sb fb x = drop_bit (32 - fb - sb) (x AND INODE_FOLDER_MASK sb fb)"

lemma bit_below_width:
  fixes w :: u32
  assumes "w < 2 ^ n" and "bit w k"
  shows "k < n"
  using assms by (metis bit_take_bit_iff less_mask_eq take_bit_eq_mask)

lemma inode_storage_roundtrip:
  fixes s f i :: u32
  assumes "0 < sb" "sb + fb < 32" "s < 2 ^ sb" "f < 2 ^ fb" "i < 2 ^ INODE_ITEM_BITS sb fb"
  shows "INODE_STORAGE sb fb (push_bit (32 - sb) s OR push_bit (INODE_ITEM_BITS sb fb) f
           OR (i AND INODE_ITEM_MASK sb fb)) = s"
proof (rule bit_word_eqI)
  fix n assume n: "n < LENGTH(32)"
  note s = bit_below_width [OF assms(3)]
  note f = bit_below_width [OF assms(4)]
  note i = bit_below_width [OF assms(5) [unfolded INODE_ITEM_BITS_def]]
  show "bit (INODE_STORAGE sb fb (push_bit (32 - sb) s OR push_bit (INODE_ITEM_BITS sb fb) f
           OR (i AND INODE_ITEM_MASK sb fb))) n = bit s n"
    using assms(1,2) n
    by (auto simp add: INODE_STORAGE_def INODE_ITEM_BITS_def INODE_ITEM_MASK_def bit_simps
        dest: s f i)
qed

lemma inode_folder_roundtrip:
  fixes s f i :: u32
  assumes "0 < sb" "sb + fb < 32" "s < 2 ^ sb" "f < 2 ^ fb" "i < 2 ^ INODE_ITEM_BITS sb fb"
  shows "INODE_FOLDER sb fb (push_bit (32 - sb) s OR push_bit (INODE_ITEM_BITS sb fb) f
           OR (i AND INODE_ITEM_MASK sb fb)) = f"
proof (rule bit_word_eqI)
  fix n assume n: "n < LENGTH(32)"
  note s = bit_below_width [OF assms(3)]
  note f = bit_below_width [OF assms(4)]
  note i = bit_below_width [OF assms(5) [unfolded INODE_ITEM_BITS_def]]
  show "bit (INODE_FOLDER sb fb (push_bit (32 - sb) s OR push_bit (INODE_ITEM_BITS sb fb) f
           OR (i AND INODE_ITEM_MASK sb fb))) n = bit f n"
    using assms(1,2) n
    by (auto simp add: INODE_FOLDER_def INODE_FOLDER_MASK_def INODE_ITEM_BITS_def
        INODE_ITEM_MASK_def bit_simps dest: s f i)
qed

lemma inode_item_roundtrip:
  fixes s f i :: u32
  assumes "0 < sb" "sb + fb < 32" "s < 2 ^ sb" "f < 2 ^ fb" "i < 2 ^ INODE_ITEM_BITS sb fb"
  shows "(push_bit (32 - sb) s OR push_bit (INODE_ITEM_BITS sb fb) f
           OR (i AND INODE_ITEM_MASK sb fb)) AND INODE_ITEM_MASK sb fb = i"
proof (rule bit_word_eqI)
  fix n assume n: "n < LENGTH(32)"
  note i = bit_below_width [OF assms(5) [unfolded INODE_ITEM_BITS_def]]
  show "bit ((push_bit (32 - sb) s OR push_bit (INODE_ITEM_BITS sb fb) f
           OR (i AND INODE_ITEM_MASK sb fb)) AND INODE_ITEM_MASK sb fb) n = bit i n"
    using assms(1,2) n
    by (auto simp add: INODE_ITEM_BITS_def INODE_ITEM_MASK_def bit_simps dest: i)
qed

text \<open>
  Claim C2 (inode round-trip).  For all field widths that leave every shift of the macros
  inside 1..31 (\<open>0 < sb\<close>, \<open>sb + fb < 32\<close>; the defaults 2/10/20 and the template's 1/7/24
  are instances), and every storage \<open>s < 2 ^ sb\<close>, folder \<open>f < 2 ^ fb\<close> and item
  \<open>i < 2 ^ INODE_ITEM_BITS\<close>: packing the three fields high-to-low into one 32-bit value,
  \<open>(s << (32 - sb)) | (f << INODE_ITEM_BITS) | (i & INODE_ITEM_MASK)\<close>, and decoding with
  \<open>INODE_STORAGE\<close>, \<open>INODE_FOLDER\<close> and \<open>& INODE_ITEM_MASK\<close> gives back \<open>s\<close>, \<open>f\<close> and \<open>i\<close>.
  The packed expression is the one the claim states; the macros are those of vfs.h.
\<close>

theorem C2_inode_roundtrip:
  fixes s f i :: u32
  assumes "0 < sb" "sb + fb < 32" "s < 2 ^ sb" "f < 2 ^ fb" "i < 2 ^ INODE_ITEM_BITS sb fb"
  shows "INODE_STORAGE sb fb (push_bit (32 - sb) s OR push_bit (INODE_ITEM_BITS sb fb) f
           OR (i AND INODE_ITEM_MASK sb fb)) = s
       \<and> INODE_FOLDER sb fb (push_bit (32 - sb) s OR push_bit (INODE_ITEM_BITS sb fb) f
           OR (i AND INODE_ITEM_MASK sb fb)) = f
       \<and> (push_bit (32 - sb) s OR push_bit (INODE_ITEM_BITS sb fb) f
           OR (i AND INODE_ITEM_MASK sb fb)) AND INODE_ITEM_MASK sb fb = i"
  using inode_storage_roundtrip [OF assms] inode_folder_roundtrip [OF assms]
    inode_item_roundtrip [OF assms]
  by simp

theorem C2_inode_roundtrip_witness:
  "INODE_STORAGE INODE_STORAGE_BITS INODE_FOLDER_BITS
     (push_bit (32 - INODE_STORAGE_BITS) (3 :: u32)
      OR push_bit (INODE_ITEM_BITS INODE_STORAGE_BITS INODE_FOLDER_BITS) (1023 :: u32)
      OR ((0xFFFFF :: u32) AND INODE_ITEM_MASK INODE_STORAGE_BITS INODE_FOLDER_BITS)) = 3
   \<and> INODE_FOLDER INODE_STORAGE_BITS INODE_FOLDER_BITS
     (push_bit (32 - INODE_STORAGE_BITS) (3 :: u32)
      OR push_bit (INODE_ITEM_BITS INODE_STORAGE_BITS INODE_FOLDER_BITS) (1023 :: u32)
      OR ((0xFFFFF :: u32) AND INODE_ITEM_MASK INODE_STORAGE_BITS INODE_FOLDER_BITS)) = 1023
   \<and> (push_bit (32 - INODE_STORAGE_BITS) (3 :: u32)
      OR push_bit (INODE_ITEM_BITS INODE_STORAGE_BITS INODE_FOLDER_BITS) (1023 :: u32)
      OR ((0xFFFFF :: u32) AND INODE_ITEM_MASK INODE_STORAGE_BITS INODE_FOLDER_BITS))
     AND INODE_ITEM_MASK INODE_STORAGE_BITS INODE_FOLDER_BITS = 0xFFFFF
   \<and> INODE_ITEM_BITS INODE_STORAGE_BITS INODE_FOLDER_BITS = 20"
proof -
  have w: "(0::nat) < INODE_STORAGE_BITS" "INODE_STORAGE_BITS + INODE_FOLDER_BITS < 32"
    "(3 :: u32) < 2 ^ INODE_STORAGE_BITS" "(1023 :: u32) < 2 ^ INODE_FOLDER_BITS"
    "(0xFFFFF :: u32) < 2 ^ INODE_ITEM_BITS INODE_STORAGE_BITS INODE_FOLDER_BITS"
    by (simp_all add: INODE_STORAGE_BITS_def INODE_FOLDER_BITS_def INODE_ITEM_BITS_def)
  have "INODE_ITEM_BITS INODE_STORAGE_BITS INODE_FOLDER_BITS = 20"
    by (simp add: INODE_STORAGE_BITS_def INODE_FOLDER_BITS_def INODE_ITEM_BITS_def)
  with C2_inode_roundtrip [OF w] show ?thesis by simp
qed


section \<open>Wildcard matcher (pattern_matching, vfs.c)\<close>

text \<open>
  \<open>pattern_matching(pat, nam, skip, inf)\<close> of vfs.c.  The pre-skip loop is the recursion of
  \<open>pattern_matching\<close> on \<open>skip\<close> (a count, never negative at a call site: 0 or the number
  of question marks \<open>nm\<close>).  The body of the \<open>do ... while\<close> loop is \<open>pm_branch\<close>: inside the
  \<open>for (;;)\<close> loop \<open>pp\<close> and \<open>np\<close> start at \<open>pat\<close> and \<open>nam\<close> and advance together, so they are
  \<open>pat + k\<close> and \<open>nam + k\<close>, written \<open>drop k pat\<close> and \<open>drop k nam\<close>; \<open>k\<close> is 0 at the top of
  the \<open>do\<close> loop.  A mismatch leaves the \<open>for\<close> loop with \<open>nc\<close>, then \<open>nam++\<close> and the loop
  condition \<open>inf != 0 && nc != 0\<close> decide the retry, which is the call
  \<open>pm_branch pat (tl nam) 0 infi\<close>.  The parameter \<open>inf\<close> is written \<open>infi\<close>.

  \<open>wild_run\<close> is the inner \<open>do ... while\<close> that analyses a run of wildcard characters: it
  counts the question marks in \<open>nm\<close>, sets \<open>nx\<close> to 1 at a star, and returns the pattern
  behind the run.  It is entered only at a wildcard character.
\<close>

definition is_wild :: "char \<Rightarrow> bool" where
  "is_wild c = (c = CHR ''?'' \<or> c = CHR ''*'')"

fun wild_run :: "string \<Rightarrow> nat \<Rightarrow> int \<Rightarrow> nat \<times> int \<times> string" where
  "wild_run [] nm nx = (nm, nx, [])"
| "wild_run (c # pp) nm nx =
     (if is_wild (peek pp)
      then wild_run pp (if c = CHR ''?'' then nm + 1 else nm) (if c = CHR ''?'' then nx else 1)
      else (if c = CHR ''?'' then nm + 1 else nm, if c = CHR ''?'' then nx else 1, pp))"

lemma wild_run_length:
  "wild_run pp nm nx = (nm', nx', pp') \<Longrightarrow> length pp' \<le> length pp"
  by (induction pp nm nx arbitrary: nm' nx' pp' rule: wild_run.induct) (force split: if_splits)+

lemma wild_run_shorter:
  "pp \<noteq> [] \<Longrightarrow> wild_run pp nm nx = (nm', nx', pp') \<Longrightarrow> length pp' < length pp"
  by (cases pp) (auto simp: le_imp_less_Suc split: if_splits dest: wild_run_length)

lemma is_wild_peek_nonempty: "is_wild (peek s) \<Longrightarrow> s \<noteq> []"
  by (cases s) (auto simp: is_wild_def NUL_def)

lemma wild_run_drop_shorter:
  assumes "is_wild (peek (drop k pat))" and "(nm, nx, pp) = wild_run (drop k pat) a b"
  shows "length pp < length pat"
proof -
  have "drop k pat \<noteq> []" using assms(1) by (rule is_wild_peek_nonempty)
  then have "length pp < length (drop k pat)"
    using assms(2) wild_run_shorter [of "drop k pat" a b nm nx pp] by simp
  then show ?thesis by simp
qed

lemma literal_step_in_range:
  assumes "toupper (peek (drop k pat)) = toupper (peek (drop k nam))"
    and "peek (drop k nam) \<noteq> NUL"
  shows "length pat - Suc k < length pat - k"
proof -
  have "toupper (peek (drop k pat)) \<noteq> NUL" using assms by (simp add: toupper_NUL_iff)
  then have "k < length pat" by (cases "k < length pat") (auto simp: toupper_NUL_iff)
  then show ?thesis by simp
qed

function pattern_matching :: "string \<Rightarrow> string \<Rightarrow> nat \<Rightarrow> int \<Rightarrow> bool"
  and pm_branch :: "string \<Rightarrow> string \<Rightarrow> nat \<Rightarrow> int \<Rightarrow> bool" where
  "pattern_matching pat nam skip infi =
     (if skip \<noteq> 0 then
        (if toupper (peek nam) = NUL then False
         else pattern_matching pat (tl nam) (skip - 1) infi)
      else if peek pat = NUL \<and> infi \<noteq> 0 then True
      else pm_branch pat nam 0 infi)"
| "pm_branch pat nam k infi =
     (if is_wild (peek (drop k pat)) then
        (case wild_run (drop k pat) 0 0 of (nm, nx, pp) \<Rightarrow>
           if pattern_matching pp (drop k nam) nm nx then True
           else if infi \<noteq> 0 \<and> peek (drop k nam) \<noteq> NUL then pm_branch pat (tl nam) 0 infi
           else False)
      else
        (let pc = toupper (peek (drop k pat)); nc = toupper (peek (drop k nam)) in
         if pc \<noteq> nc then
           (if infi \<noteq> 0 \<and> nc \<noteq> NUL then pm_branch pat (tl nam) 0 infi else False)
         else if pc = NUL then True
         else pm_branch pat nam (k + 1) infi))"
  by pat_completeness auto
termination
  apply (relation "inv_image (less_than <*lex*> less_than <*lex*> less_than <*lex*> less_than)
     (\<lambda>x. case x of Inl (pat, nam, skip, infi) \<Rightarrow> (length pat, length nam, 1::nat, 0::nat)
               | Inr (pat, nam, k, infi) \<Rightarrow> (length pat, length nam, 0, length pat - k))")
  apply (auto simp: toupper_NUL_iff
      dest: peek_not_NUL wild_run_drop_shorter literal_step_in_range)
  done

declare pattern_matching.simps [simp del] pm_branch.simps [simp del]

subsection \<open>Case folding\<close>

lemma toupper_lower_code:
  assumes "97 \<le> (of_char c :: nat) \<and> (of_char c :: nat) \<le> 122"
  shows "(of_char (char_of (of_char c - 32 :: nat)) :: nat) = of_char c - 32"
proof -
  have "(of_char c :: nat) - 32 < 256" using assms by arith
  then show ?thesis by simp
qed

lemma toupper_idem: "toupper (toupper c) = toupper c"
proof (cases "97 \<le> (of_char c :: nat) \<and> (of_char c :: nat) \<le> 122")
  case True
  then have "\<not> (97 \<le> (of_char c :: nat) - 32 \<and> (of_char c :: nat) - 32 \<le> 122)" by arith
  with True toupper_lower_code [OF True] show ?thesis by (auto simp add: toupper_def Let_def)
next
  case False
  then show ?thesis by (auto simp add: toupper_def Let_def)
qed

lemma toupper_eq_low:
  assumes "(of_char d :: nat) < 65"
  shows "toupper c = d \<longleftrightarrow> c = d"
proof (cases "97 \<le> (of_char c :: nat) \<and> (of_char c :: nat) \<le> 122")
  case True
  with toupper_lower_code [OF True] assms have "char_of (of_char c - 32 :: nat) \<noteq> d" by auto
  moreover from True assms have "c \<noteq> d" by auto
  ultimately show ?thesis using True by (simp add: toupper_def Let_def)
next
  case False
  then show ?thesis by (auto simp add: toupper_def Let_def)
qed

lemma is_wild_toupper: "is_wild (toupper c) = is_wild c"
  by (simp add: is_wild_def toupper_eq_low)

lemma toupper_NUL: "toupper NUL = NUL"
  by (simp add: toupper_NUL_iff)

lemma toupper_NUL_iff2: "NUL = toupper c \<longleftrightarrow> c = NUL"
  using toupper_NUL_iff [of c] by auto

lemma not_is_wild_NUL: "\<not> is_wild NUL"
  by (simp add: is_wild_def NUL_def)

lemma peek_map_toupper: "peek (map toupper s) = toupper (peek s)"
  by (cases s) (simp_all add: toupper_NUL)

lemma wild_run_map_toupper:
  "wild_run (map toupper pp) nm nx =
     (case wild_run pp nm nx of (a, b, r) \<Rightarrow> (a, b, map toupper r))"
  by (induction pp nm nx rule: wild_run.induct)
     (simp_all add: peek_map_toupper is_wild_toupper toupper_eq_low)

lemma pattern_matching_toupper_pat:
  "pattern_matching (map toupper pat) nam skip infi = pattern_matching pat nam skip infi"
  "pm_branch (map toupper pat) nam k infi = pm_branch pat nam k infi"
proof (induction pat nam skip infi and pat nam k infi rule: pattern_matching_pm_branch.induct)
  case (1 pat nam skip infi)
  show ?case
    apply (subst pattern_matching.simps
        [where pat="map toupper pat" and nam=nam and skip=skip and infi=infi])
    apply (subst pattern_matching.simps [where pat=pat and nam=nam and skip=skip and infi=infi])
    using 1
    apply (simp add: peek_map_toupper toupper_NUL_iff)
    done
next
  case (2 pat nam k infi)
  show ?case
    apply (subst pm_branch.simps [where pat="map toupper pat" and nam=nam and k=k and infi=infi])
    apply (subst pm_branch.simps [where pat=pat and nam=nam and k=k and infi=infi])
    using 2
    apply (simp add: peek_map_toupper toupper_NUL_iff toupper_idem drop_map is_wild_toupper
        wild_run_map_toupper Let_def split: prod.splits)
    done
qed

lemma pattern_matching_toupper_nam:
  "pattern_matching pat (map toupper nam) skip infi = pattern_matching pat nam skip infi"
  "pm_branch pat (map toupper nam) k infi = pm_branch pat nam k infi"
proof (induction pat nam skip infi and pat nam k infi rule: pattern_matching_pm_branch.induct)
  case (1 pat nam skip infi)
  show ?case
    apply (subst pattern_matching.simps
        [where pat=pat and nam="map toupper nam" and skip=skip and infi=infi])
    apply (subst pattern_matching.simps [where pat=pat and nam=nam and skip=skip and infi=infi])
    using 1
    apply (simp add: peek_map_toupper toupper_NUL_iff map_tl)
    done
next
  case (2 pat nam k infi)
  show ?case
    apply (subst pm_branch.simps [where pat=pat and nam="map toupper nam" and k=k and infi=infi])
    apply (subst pm_branch.simps [where pat=pat and nam=nam and k=k and infi=infi])
    using 2
    apply (simp add: peek_map_toupper toupper_NUL_iff toupper_idem map_tl drop_map Let_def
        split: prod.splits)
    done
qed

subsection \<open>Unfolding the matcher\<close>

lemma pattern_matching_0:
  "pattern_matching pat nam 0 infi =
     (if peek pat = NUL \<and> infi \<noteq> 0 then True else pm_branch pat nam 0 infi)"
  by (simp add: pattern_matching.simps [where pat=pat and nam=nam and skip=0 and infi=infi])

lemma pattern_matching_Suc:
  "pattern_matching pat nam (Suc n) infi =
     (if peek nam = NUL then False else pattern_matching pat (tl nam) n infi)"
  by (simp add: pattern_matching.simps [where pat=pat and nam=nam and skip="Suc n" and infi=infi]
      toupper_NUL_iff)

lemma pm_branch_end:
  "pm_branch [] nam 0 infi =
     (if peek nam = NUL then True
      else if infi \<noteq> 0 then pm_branch [] (tl nam) 0 infi else False)"
  by (simp add: pm_branch.simps [where pat="[]" and nam=nam and k=0 and infi=infi]
      not_is_wild_NUL toupper_NUL_iff toupper_NUL_iff2 toupper_NUL Let_def)

lemma star_matches_all: "pattern_matching ''*'' nam 0 0"
  by (simp add: pattern_matching_0
      pm_branch.simps [where pat="''*''" and nam=nam and k=0 and infi=0] is_wild_def NUL_def)

lemma empty_pattern_unbounded:
  "infi \<noteq> 0 \<Longrightarrow> skip \<le> strlen nam \<Longrightarrow> pattern_matching [] nam skip infi"
proof (induction skip arbitrary: nam)
  case 0
  then show ?case by (simp add: pattern_matching_0)
next
  case (Suc skip)
  then obtain c cs where nam: "nam = c # cs" "c \<noteq> NUL" "skip \<le> strlen cs"
    by (cases nam) (auto simp: strlen_def split: if_splits)
  with Suc.IH [of cs] Suc.prems(1) show ?case
    by (simp add: pattern_matching_Suc)
qed

lemma both_exhausted: "pattern_matching [] [] 0 infi"
  by (simp add: pattern_matching_0 pm_branch_end)

lemma question_matches_one: "pattern_matching ''?'' nam 0 0 \<longleftrightarrow> strlen nam = 1"
proof -
  have w: "wild_run ''?'' 0 0 = (1, 0, [])" by (simp add: is_wild_def NUL_def)
  have "pattern_matching ''?'' nam 0 0 = pattern_matching [] nam (Suc 0) 0"
    by (simp add: pattern_matching_0
        pm_branch.simps [where pat="''?''" and nam=nam and k=0 and infi=0] w)
       (simp add: is_wild_def NUL_def)
  also have "\<dots> = (peek nam \<noteq> NUL \<and> peek (tl nam) = NUL)"
    by (simp add: pattern_matching_Suc pattern_matching_0 pm_branch_end)
  also have "\<dots> = (strlen nam = 1)"
  proof (cases nam)
    case Nil
    then show ?thesis by (simp add: strlen_def)
  next
    case (Cons c cs)
    then show ?thesis by (cases cs) (auto simp: strlen_def)
  qed
  finally show ?thesis .
qed

lemma pm_branch_literal:
  assumes "\<And>c. c \<in> set pat \<Longrightarrow> \<not> is_wild c \<and> c \<noteq> NUL" and "NUL \<notin> set nam"
  shows "pm_branch pat nam k 0 = (map toupper (drop k pat) = map toupper (drop k nam))"
proof (induction "length pat - k" arbitrary: k)
  case 0
  then have e: "drop k pat = []" by simp
  have "peek (drop k nam) = NUL \<longleftrightarrow> drop k nam = []"
    using assms(2) by (cases "drop k nam") (auto, metis in_set_dropD list.set_intros(1))
  then show ?case using e not_is_wild_NUL
    by (simp add: pm_branch.simps [where pat=pat and nam=nam and k=k and infi=0] Let_def
        toupper_NUL_iff toupper_NUL_iff2 toupper_NUL)
next
  case (Suc n)
  then have k: "k < length pat" by simp
  then have e: "drop k pat = pat ! k # drop (Suc k) pat" by (simp add: Cons_nth_drop_Suc)
  have p: "\<not> is_wild (pat ! k)" "pat ! k \<noteq> NUL" using assms(1) k by auto
  show ?case
  proof (cases "drop k nam")
    case Nil
    with e p show ?thesis
      by (simp add: pm_branch.simps [where pat=pat and nam=nam and k=k and infi=0] Let_def
          toupper_NUL_iff toupper_NUL_iff2 toupper_NUL)
  next
    case (Cons c cs)
    then have "k < length nam" by (cases "k < length nam") auto
    then have "drop k nam = nam ! k # drop (Suc k) nam" by (simp add: Cons_nth_drop_Suc)
    with Cons have cs: "cs = drop (Suc k) nam" by simp
    have c: "c \<noteq> NUL" using assms(2) Cons by (metis in_set_dropD list.set_intros(1))
    from Suc(2) k have "n = length pat - Suc k" by simp
    from Suc(1) [OF this] e p Cons cs c show ?thesis
      by (simp add: pm_branch.simps [where pat=pat and nam=nam and k=k and infi=0] Let_def
          toupper_NUL_iff toupper_NUL_iff2 toupper_NUL)
  qed
qed

lemma literal_pattern:
  assumes "\<And>c. c \<in> set pat \<Longrightarrow> \<not> is_wild c \<and> c \<noteq> NUL" and "NUL \<notin> set nam"
  shows "pattern_matching pat nam 0 0 = (map toupper pat = map toupper nam)"
  using pm_branch_literal [OF assms, where k=0]
  by (simp add: pattern_matching_0)

subsection \<open>The reference matcher\<close>

text \<open>
  The reference the matcher is compared with, after the words of the specification: \<open>?\<close>
  stands for exactly one character, \<open>*\<close> for zero or more characters, every other character
  for itself up to case, and the pattern is exhausted exactly when the name is.
\<close>

fun glob_match :: "string \<Rightarrow> string \<Rightarrow> bool" where
  "glob_match [] nam = (nam = [])"
| "glob_match (p # ps) [] = (p = CHR ''*'' \<and> glob_match ps [])"
| "glob_match (p # ps) (c # cs) =
     (if p = CHR ''*'' then glob_match ps (c # cs) \<or> glob_match (p # ps) cs
      else if p = CHR ''?'' then glob_match ps cs
      else toupper p = toupper c \<and> glob_match ps cs)"

lemma glob_question: "glob_match (CHR ''?'' # ps) n \<longleftrightarrow> n \<noteq> [] \<and> glob_match ps (tl n)"
  by (cases n) simp_all

lemma glob_star: "glob_match (CHR ''*'' # ps) n \<longleftrightarrow> (\<exists>j \<le> length n. glob_match ps (drop j n))"
proof (induction n)
  case Nil
  then show ?case by simp
next
  case (Cons c cs)
  have "(\<exists>j \<le> length (c # cs). glob_match ps (drop j (c # cs)))
        \<longleftrightarrow> glob_match ps (c # cs) \<or> (\<exists>j \<le> length cs. glob_match ps (drop j cs))"
  proof
    assume "\<exists>j \<le> length (c # cs). glob_match ps (drop j (c # cs))"
    then obtain j where j: "j \<le> length (c # cs)" "glob_match ps (drop j (c # cs))" by blast
    show "glob_match ps (c # cs) \<or> (\<exists>j \<le> length cs. glob_match ps (drop j cs))"
    proof (cases j)
      case 0
      with j show ?thesis by simp
    next
      case (Suc i)
      with j have "i \<le> length cs" "glob_match ps (drop i cs)" by simp_all
      then show ?thesis by blast
    qed
  next
    assume "glob_match ps (c # cs) \<or> (\<exists>j \<le> length cs. glob_match ps (drop j cs))"
    then show "\<exists>j \<le> length (c # cs). glob_match ps (drop j (c # cs))"
    proof
      assume "glob_match ps (c # cs)"
      then have "0 \<le> length (c # cs) \<and> glob_match ps (drop 0 (c # cs))" by simp
      then show ?thesis by blast
    next
      assume "\<exists>j \<le> length cs. glob_match ps (drop j cs)"
      then obtain j where "j \<le> length cs" "glob_match ps (drop j cs)" by blast
      then have "Suc j \<le> length (c # cs) \<and> glob_match ps (drop (Suc j) (c # cs))" by simp
      then show ?thesis by blast
    qed
  qed
  with Cons show ?case by simp
qed

lemma glob_literal:
  "p \<noteq> CHR ''*'' \<Longrightarrow> p \<noteq> CHR ''?'' \<Longrightarrow>
     glob_match (p # ps) n \<longleftrightarrow> n \<noteq> [] \<and> toupper p = toupper (hd n) \<and> glob_match ps (tl n)"
  by (cases n) simp_all

text \<open>
  What a call with a pre-skip and an unbounded tail decides, in terms of the reference:
  \<open>nm\<close> characters are skipped, then any number more when \<open>nx\<close> is set, and the rest matches.
  \<open>prefix_match\<close> is the invariant of the \<open>for\<close> loop: the first \<open>k\<close> characters of the pattern are
  literal and equal those of the name up to case.
\<close>

definition skip_match :: "string \<Rightarrow> string \<Rightarrow> nat \<Rightarrow> int \<Rightarrow> bool" where
  "skip_match pat n nm nx =
     (nm \<le> length n \<and>
      (if nx \<noteq> 0 then (\<exists>j \<le> length n - nm. glob_match pat (drop (nm + j) n))
       else glob_match pat (drop nm n)))"

lemma skip_match_question:
  "skip_match (CHR ''?'' # ps) n nm nx = skip_match ps n (Suc nm) nx"
proof (cases "nx = 0")
  case True
  then show ?thesis
    by (auto simp add: skip_match_def glob_question drop_Suc tl_drop Suc_le_eq)
next
  case False
  have "(\<exists>j \<le> length n - nm. drop (nm + j) n \<noteq> [] \<and> glob_match ps (tl (drop (nm + j) n)))
        \<longleftrightarrow> (Suc nm \<le> length n \<and> (\<exists>j \<le> length n - Suc nm. glob_match ps (drop (Suc nm + j) n)))"
  proof
    assume "\<exists>j \<le> length n - nm. drop (nm + j) n \<noteq> [] \<and> glob_match ps (tl (drop (nm + j) n))"
    then obtain j where j: "j \<le> length n - nm" "drop (nm + j) n \<noteq> []"
      "glob_match ps (tl (drop (nm + j) n))" by blast
    from j(2) have "nm + j < length n" by simp
    moreover from j(3) have "glob_match ps (drop (Suc nm + j) n)" by (simp add: drop_Suc tl_drop)
    ultimately have "Suc nm \<le> length n \<and> j \<le> length n - Suc nm \<and> glob_match ps (drop (Suc nm + j) n)"
      by simp
    then show "Suc nm \<le> length n \<and> (\<exists>j \<le> length n - Suc nm. glob_match ps (drop (Suc nm + j) n))"
      by blast
  next
    assume "Suc nm \<le> length n \<and> (\<exists>j \<le> length n - Suc nm. glob_match ps (drop (Suc nm + j) n))"
    then obtain j where j: "Suc nm \<le> length n" "j \<le> length n - Suc nm"
      "glob_match ps (drop (Suc nm + j) n)" by blast
    from j(1,2) have "j \<le> length n - nm" "nm + j < length n" by arith+
    with j(3) have "j \<le> length n - nm \<and> drop (nm + j) n \<noteq> [] \<and> glob_match ps (tl (drop (nm + j) n))"
      by (simp add: drop_Suc tl_drop)
    then show "\<exists>j \<le> length n - nm. drop (nm + j) n \<noteq> [] \<and> glob_match ps (tl (drop (nm + j) n))"
      by blast
  qed
  with False show ?thesis by (auto simp add: skip_match_def glob_question)
qed

lemma skip_match_star:
  "skip_match (CHR ''*'' # ps) n nm nx = skip_match ps n nm 1"
proof (cases "nx = 0")
  case True
  then show ?thesis by (simp add: skip_match_def glob_star add.commute)
next
  case False
  have "(\<exists>j \<le> length n - nm. \<exists>i \<le> length n - (nm + j). glob_match ps (drop (i + (nm + j)) n))
        \<longleftrightarrow> (\<exists>j \<le> length n - nm. glob_match ps (drop (nm + j) n))"
  proof
    assume "\<exists>j \<le> length n - nm. \<exists>i \<le> length n - (nm + j). glob_match ps (drop (i + (nm + j)) n)"
    then obtain j i where a: "j \<le> length n - nm" "i \<le> length n - (nm + j)"
      "glob_match ps (drop (i + (nm + j)) n)" by blast
    then have "j + i \<le> length n - nm \<and> glob_match ps (drop (nm + (j + i)) n)"
      by (simp add: add.commute add.left_commute)
    then show "\<exists>j \<le> length n - nm. glob_match ps (drop (nm + j) n)" by blast
  next
    assume "\<exists>j \<le> length n - nm. glob_match ps (drop (nm + j) n)"
    then obtain j where "j \<le> length n - nm" "glob_match ps (drop (nm + j) n)" by blast
    then have "j \<le> length n - nm \<and> 0 \<le> length n - (nm + j) \<and> glob_match ps (drop (0 + (nm + j)) n)"
      by simp
    then show "\<exists>j \<le> length n - nm. \<exists>i \<le> length n - (nm + j). glob_match ps (drop (i + (nm + j)) n)"
      by blast
  qed
  with False show ?thesis by (simp add: skip_match_def glob_star)
qed

lemma wild_run_skip_match:
  "is_wild c \<Longrightarrow> wild_run (c # ps) nm0 nx0 = (nm, nx, pp) \<Longrightarrow>
     skip_match (c # ps) n nm0 nx0 = skip_match pp n nm nx"
proof (induction ps arbitrary: c nm0 nx0)
  case Nil
  then show ?case
    by (auto simp add: is_wild_def not_is_wild_NUL skip_match_question skip_match_star
          split: if_splits)
next
  case (Cons d ps)
  show ?case
  proof (cases "is_wild d")
    case True
    from Cons.prems(2) True
    have w: "wild_run (d # ps) (if c = CHR ''?'' then nm0 + 1 else nm0)
               (if c = CHR ''?'' then nx0 else 1) = (nm, nx, pp)"
      by simp
    from Cons.IH [OF True w] Cons.prems(1) show ?thesis
      by (auto simp add: is_wild_def skip_match_question skip_match_star split: if_splits)
  next
    case False
    with Cons.prems show ?thesis
      by (auto simp add: is_wild_def skip_match_question skip_match_star split: if_splits)
  qed
qed


definition prefix_match :: "nat \<Rightarrow> string \<Rightarrow> string \<Rightarrow> bool" where
  "prefix_match k pat nam =
     (k \<le> length pat \<and> k \<le> length nam \<and> (\<forall>c \<in> set (take k pat). \<not> is_wild c)
      \<and> map toupper (take k pat) = map toupper (take k nam))"

lemma prefix_match_0: "prefix_match 0 pat nam"
  by (simp add: prefix_match_def)

lemma glob_drop_prefix:
  "prefix_match k pat nam \<Longrightarrow> glob_match pat nam = glob_match (drop k pat) (drop k nam)"
proof (induction k arbitrary: pat nam)
  case 0
  then show ?case by simp
next
  case (Suc k)
  then obtain p ps c cs where e: "pat = p # ps" "nam = c # cs"
    by (cases pat; cases nam) (auto simp add: prefix_match_def)
  with Suc.prems have "prefix_match k ps cs" "\<not> is_wild p" "toupper p = toupper c"
    by (auto simp add: prefix_match_def)
  with Suc.IH [of ps cs] e show ?case by (simp add: is_wild_def)
qed

lemma glob_min_length:
  "k \<le> length pat \<Longrightarrow> \<forall>c \<in> set (take k pat). \<not> is_wild c \<Longrightarrow> glob_match pat n \<Longrightarrow>
     k \<le> length n"
proof (induction k arbitrary: pat n)
  case 0
  then show ?case by simp
next
  case (Suc k)
  then obtain p ps where e: "pat = p # ps" by (cases pat) auto
  with Suc.prems have p: "\<not> is_wild p" "k \<le> length ps" "\<forall>c \<in> set (take k ps). \<not> is_wild c"
    by auto
  show ?case
  proof (cases n)
    case Nil
    with Suc.prems(3) e p(1) show ?thesis by (simp add: is_wild_def)
  next
    case (Cons c cs)
    with Suc.prems(3) e p(1) have "glob_match ps cs" by (simp add: is_wild_def split: if_splits)
    from Suc.IH [OF p(2) p(3) this] Cons show ?thesis by simp
  qed
qed

lemma skip0_fin: "skip_match pat nam 0 0 = glob_match pat nam"
  by (simp add: skip_match_def)

lemma skip0_inf: "infi \<noteq> 0 \<Longrightarrow> skip_match pat nam 0 infi = glob_match (CHR ''*'' # pat) nam"
  by (simp add: skip_match_def glob_star)

lemma skip0_step:
  "nam \<noteq> [] \<Longrightarrow> infi \<noteq> 0 \<Longrightarrow>
     skip_match pat nam 0 infi = (glob_match pat nam \<or> skip_match pat (tl nam) 0 infi)"
  by (cases nam) (simp_all add: skip0_inf)

lemma skip0_short:
  assumes "infi \<noteq> 0" and "k \<le> length pat" and "\<forall>c \<in> set (take k pat). \<not> is_wild c"
    and "length nam \<le> k" and "\<not> glob_match pat nam"
  shows "\<not> skip_match pat nam 0 infi"
proof
  assume "skip_match pat nam 0 infi"
  with assms(1) obtain j where j: "j \<le> length nam" "glob_match pat (drop j nam)"
    by (auto simp add: skip_match_def)
  from glob_min_length [OF assms(2,3) j(2)] assms(4) j(1) have "j = 0" by simp
  with j(2) assms(5) show False by simp
qed

lemma skip_match_Suc:
  "skip_match pat nam (Suc n) infi = (nam \<noteq> [] \<and> skip_match pat (tl nam) n infi)"
  by (cases nam) (simp_all add: skip_match_def)

lemma peek_drop: "peek (drop k s) = (if k < length s then s ! k else NUL)"
proof (cases "k < length s")
  case True
  then have "drop k s = s ! k # drop (Suc k) s" by (simp add: Cons_nth_drop_Suc)
  with True show ?thesis by simp
next
  case False
  then show ?thesis by simp
qed

lemma prefix_match_Suc:
  assumes "prefix_match k pat nam" and "k < length pat" and "k < length nam"
    and "\<not> is_wild (pat ! k)" and "toupper (pat ! k) = toupper (nam ! k)"
  shows "prefix_match (Suc k) pat nam"
  using assms by (auto simp add: prefix_match_def take_Suc_conv_app_nth)

lemma wild_run_set: "wild_run ps a b = (nm, nx, pp) \<Longrightarrow> set pp \<subseteq> set ps"
  by (induction ps a b arbitrary: nm nx pp rule: wild_run.induct)
     (auto split: if_splits)

lemma glob_imp_skip0: "glob_match pat nam \<Longrightarrow> skip_match pat nam 0 infi"
proof (cases "infi = 0")
  case True
  assume "glob_match pat nam"
  with True show ?thesis by (simp add: skip0_fin)
next
  case False
  assume "glob_match pat nam"
  then have "0 \<le> length nam \<and> glob_match pat (drop 0 nam)" by simp
  then have "\<exists>j \<le> length nam. glob_match pat (drop j nam)" by blast
  with False show ?thesis by (simp add: skip_match_def)
qed

lemma glob_empty_star: "infi \<noteq> 0 \<Longrightarrow> skip_match [] nam 0 infi"
proof -
  assume i: "infi \<noteq> 0"
  have "length nam \<le> length nam \<and> glob_match [] (drop (length nam) nam)" by simp
  then have "\<exists>j \<le> length nam. glob_match [] (drop j nam)" by blast
  with i show ?thesis by (simp add: skip_match_def)
qed

lemma literal_mismatch:
  assumes "\<not> is_wild (peek dp)" and "NUL \<notin> set dp" and "NUL \<notin> set dn"
    and "toupper (peek dp) \<noteq> toupper (peek dn)"
  shows "\<not> glob_match dp dn"
proof (cases dp)
  case Nil
  with assms(4) have "dn \<noteq> []" by (cases dn) auto
  with Nil show ?thesis by simp
next
  case (Cons p ps)
  with assms(1) have p: "p \<noteq> CHR ''*''" "p \<noteq> CHR ''?''" by (auto simp add: is_wild_def)
  show ?thesis
  proof (cases dn)
    case Nil
    with Cons p show ?thesis by simp
  next
    case c: (Cons c cs)
    with Cons p assms(4) show ?thesis by simp
  qed
qed

lemma NUL_free_peek_drop:
  "NUL \<notin> set s \<Longrightarrow> k \<le> length s \<Longrightarrow> (peek (drop k s) = NUL) = (length s = k)"
proof -
  assume a: "NUL \<notin> set s" "k \<le> length s"
  show ?thesis
  proof (cases "k < length s")
    case True
    then have "s ! k \<in> set s" by simp
    with a(1) have "s ! k \<noteq> NUL" by auto
    with True show ?thesis by (simp add: peek_drop)
  next
    case False
    with a(2) show ?thesis by (simp add: peek_drop)
  qed
qed

lemma matcher_is_glob:
  "NUL \<notin> set pat \<longrightarrow> NUL \<notin> set nam \<longrightarrow>
     pattern_matching pat nam skip infi = skip_match pat nam skip infi"
  "NUL \<notin> set pat \<longrightarrow> NUL \<notin> set nam \<longrightarrow> prefix_match k pat nam \<longrightarrow>
     pm_branch pat nam k infi = skip_match pat nam 0 infi"
proof (induction pat nam skip infi and pat nam k infi rule: pattern_matching_pm_branch.induct)
  case (1 pat nam skip infi)
  show ?case
  proof (intro impI)
    assume np: "NUL \<notin> set pat" and nn: "NUL \<notin> set nam"
    show "pattern_matching pat nam skip infi = skip_match pat nam skip infi"
    proof (cases skip)
      case 0
      show ?thesis
      proof (cases "peek pat = NUL \<and> infi \<noteq> 0")
        case True
        with np have "pat = []" by (cases pat) auto
        with True 0 show ?thesis by (simp add: pattern_matching_0 glob_empty_star)
      next
        case False
        with 1(2) 0 np nn have "pm_branch pat nam 0 infi = skip_match pat nam 0 infi"
          by (simp add: prefix_match_0)
        with 0 False show ?thesis by (auto simp add: pattern_matching_0)
      qed
    next
      case (Suc n)
      show ?thesis
      proof (cases nam)
        case Nil
        with Suc show ?thesis by (simp add: pattern_matching_Suc skip_match_Suc)
      next
        case (Cons c cs)
        with nn have c: "c \<noteq> NUL" "NUL \<notin> set cs" by auto
        with Cons Suc 1(1) np have "pattern_matching pat cs n infi = skip_match pat cs n infi"
          by (simp add: toupper_NUL_iff)
        with Cons Suc c show ?thesis by (simp add: pattern_matching_Suc skip_match_Suc)
      qed
    qed
  qed
next
  case (2 pat nam k infi)
  show ?case
  proof (intro impI)
    assume np: "NUL \<notin> set pat" and nn: "NUL \<notin> set nam" and pm: "prefix_match k pat nam"
    from pm have g: "glob_match pat nam = glob_match (drop k pat) (drop k nam)"
      by (rule glob_drop_prefix)
    from pm have kp: "k \<le> length pat" "k \<le> length nam" "\<forall>c \<in> set (take k pat). \<not> is_wild c"
      by (auto simp add: prefix_match_def)
    from nn kp(2) have nk: "(peek (drop k nam) = NUL) = (length nam = k)"
      by (rule NUL_free_peek_drop)
    from np kp(1) have pk: "(peek (drop k pat) = NUL) = (length pat = k)"
      by (rule NUL_free_peek_drop)
    have ndp: "NUL \<notin> set (drop k pat)" using np by (auto dest: in_set_dropD)
    have ndn: "NUL \<notin> set (drop k nam)" using nn by (auto dest: in_set_dropD)
    have ntl: "NUL \<notin> set (tl nam)" using nn by (cases nam) auto
    have fail: "pm_branch pat nam k infi = skip_match pat nam 0 infi"
      if f: "\<not> glob_match pat nam"
        and u: "pm_branch pat nam k infi =
                  (if infi \<noteq> 0 \<and> peek (drop k nam) \<noteq> NUL then pm_branch pat (tl nam) 0 infi
                   else False)"
        and ih: "infi \<noteq> 0 \<and> peek (drop k nam) \<noteq> NUL \<Longrightarrow>
                   pm_branch pat (tl nam) 0 infi = skip_match pat (tl nam) 0 infi"
    proof (cases "infi \<noteq> 0 \<and> peek (drop k nam) \<noteq> NUL")
      case True
      with nk kp(2) have "nam \<noteq> []" by auto
      with True f have "skip_match pat nam 0 infi = skip_match pat (tl nam) 0 infi"
        by (simp add: skip0_step)
      with u True ih show ?thesis by simp
    next
      case False
      show ?thesis
      proof (cases "infi = 0")
        case True
        with u f show ?thesis by (simp add: skip0_fin)
      next
        case i: False
        with False nk have "length nam \<le> k" by simp
        from skip0_short [OF i kp(1) kp(3) this f] u False show ?thesis by simp
      qed
    qed
    show "pm_branch pat nam k infi = skip_match pat nam 0 infi"
    proof (cases "is_wild (peek (drop k pat))")
      case True
      obtain nm nx pp where w: "wild_run (drop k pat) 0 0 = (nm, nx, pp)"
        by (cases "wild_run (drop k pat) 0 0") auto
      from True obtain c ps where d: "drop k pat = c # ps" "is_wild c"
        by (cases "drop k pat") (auto simp add: not_is_wild_NUL)
      from wild_run_set [OF w] ndp have npp: "NUL \<notin> set pp" by auto
      from 2(1) [OF True w [symmetric] refl] npp ndn
      have inner: "pattern_matching pp (drop k nam) nm nx = skip_match pp (drop k nam) nm nx"
        by simp
      from w d have "wild_run (c # ps) 0 0 = (nm, nx, pp)" by simp
      from wild_run_skip_match [OF d(2) this, of "drop k nam"] g d
      have gl: "glob_match pat nam = skip_match pp (drop k nam) nm nx"
        by (simp add: skip0_fin)
      show ?thesis
      proof (cases "pattern_matching pp (drop k nam) nm nx")
        case m: True
        with True w have "pm_branch pat nam k infi"
          by (simp add: pm_branch.simps [where pat=pat and nam=nam and k=k and infi=infi])
        moreover from m inner gl have "skip_match pat nam 0 infi" by (simp add: glob_imp_skip0)
        ultimately show ?thesis by simp
      next
        case m: False
        with inner gl have f: "\<not> glob_match pat nam" by simp
        from True w m have u: "pm_branch pat nam k infi =
                  (if infi \<noteq> 0 \<and> peek (drop k nam) \<noteq> NUL then pm_branch pat (tl nam) 0 infi
                   else False)"
          by (simp add: pm_branch.simps [where pat=pat and nam=nam and k=k and infi=infi])
        have ih: "pm_branch pat (tl nam) 0 infi = skip_match pat (tl nam) 0 infi"
          if "infi \<noteq> 0 \<and> peek (drop k nam) \<noteq> NUL"
          using 2(2) [OF True w [symmetric] refl m that] np ntl by (simp add: prefix_match_0)
        from fail [OF f u ih] show ?thesis .
      qed
    next
      case False
      show ?thesis
      proof (cases "toupper (peek (drop k pat)) \<noteq> toupper (peek (drop k nam))")
        case True
        from literal_mismatch [OF False ndp ndn True] g have f: "\<not> glob_match pat nam" by simp
        from False True have u: "pm_branch pat nam k infi =
                  (if infi \<noteq> 0 \<and> peek (drop k nam) \<noteq> NUL then pm_branch pat (tl nam) 0 infi
                   else False)"
          by (simp add: pm_branch.simps [where pat=pat and nam=nam and k=k and infi=infi]
                Let_def toupper_NUL_iff)
        have ih: "pm_branch pat (tl nam) 0 infi = skip_match pat (tl nam) 0 infi"
          if "infi \<noteq> 0 \<and> peek (drop k nam) \<noteq> NUL"
          using 2(3) [OF False refl refl True] that np ntl
          by (simp add: prefix_match_0 toupper_NUL_iff)
        from fail [OF f u ih] show ?thesis .
      next
        case eq: False
        show ?thesis
        proof (cases "peek (drop k pat) = NUL")
          case True
          with eq have "peek (drop k nam) = NUL" by (simp add: toupper_NUL toupper_NUL_iff2)
          with True pk nk kp have "drop k pat = []" "drop k nam = []" by simp_all
          with g have "glob_match pat nam" by simp
          then have "skip_match pat nam 0 infi" by (rule glob_imp_skip0)
          moreover from False eq True have "pm_branch pat nam k infi"
            by (simp add: pm_branch.simps [where pat=pat and nam=nam and k=k and infi=infi]
                  Let_def toupper_NUL)
          ultimately show ?thesis by simp
        next
          case nz: False
          with eq have nz2: "peek (drop k nam) \<noteq> NUL"
            by (auto simp add: toupper_NUL toupper_NUL_iff)
          from nz pk kp(1) have k1: "k < length pat" by simp
          from nz2 nk kp(2) have k2: "k < length nam" by simp
          from False k1 have "\<not> is_wild (pat ! k)" by (simp add: peek_drop)
          moreover from eq k1 k2 have "toupper (pat ! k) = toupper (nam ! k)"
            by (simp add: peek_drop)
          ultimately have "prefix_match (Suc k) pat nam"
            using pm k1 k2 by (intro prefix_match_Suc)
          with 2(4) [OF False refl refl] eq nz np nn
          have "pm_branch pat nam (k + 1) infi = skip_match pat nam 0 infi"
            by (simp add: toupper_NUL_iff)
          moreover from False eq nz nz2 have "pm_branch pat nam k infi = pm_branch pat nam (k + 1) infi"
            by (simp add: pm_branch.simps [where pat=pat and nam=nam and k=k and infi=infi]
                  Let_def toupper_NUL_iff)
          ultimately show ?thesis by simp
        qed
      qed
    qed
  qed
qed

subsection \<open>The matches the specification lists\<close>

lemma match_star_txt_1: "pattern_matching ''*.txt'' ''a.txt'' 0 0"
  by code_simp

lemma match_star_txt_2: "pattern_matching ''*.txt'' ''.txt'' 0 0"
  by code_simp

lemma match_star_txt_3: "\<not> pattern_matching ''*.txt'' ''a.tx'' 0 0"
  by code_simp

lemma match_question_1: "pattern_matching ''a?c'' ''abc'' 0 0"
  by code_simp

lemma match_question_2: "\<not> pattern_matching ''a?c'' ''ac'' 0 0"
  by code_simp

lemma match_question_3: "\<not> pattern_matching ''a?c'' ''abbc'' 0 0"
  by code_simp

lemma match_two_stars_1: "pattern_matching ''a*b*c'' ''aXbYc'' 0 0"
  by code_simp

lemma match_two_stars_2: "pattern_matching ''a*b*c'' ''abc'' 0 0"
  by code_simp

lemma match_two_stars_3: "\<not> pattern_matching ''a*b*c'' ''acb'' 0 0"
  by code_simp

text \<open>
  Claim C4 (wildcard matching).  For \<open>pattern_matching(pat, name, 0, 0)\<close> on strings (no NUL
  inside):
  \<^item> for every pattern and every name the result is that of the reference matcher, in which
    \<open>?\<close> stands for exactly one character and \<open>*\<close> for zero or more; in the matcher's own
    terms, at the head of any pattern \<open>?\<close> takes one character of the name, \<open>*\<close> takes any
    number of them, a literal takes the one character equal to it up to case, and the empty
    pattern matches the empty name only;
  \<^item> matching is case-insensitive: folding the pattern, or the name, to upper case does not
    change the result, and a pattern without wildcards matches exactly the names equal to
    it up to case;
  \<^item> the pattern \<open>?\<close> matches the names of length 1 and the pattern \<open>*\<close> every name, the
    empty name included;
  \<^item> an exhausted pattern with an exhausted name is a match, and an empty pattern under an
    unbounded tail (\<open>inf \<noteq> 0\<close>) matches every name that still has the \<open>skip\<close> characters
    to pre-skip;
  \<^item> \<open>*.txt\<close> matches \<open>a.txt\<close> and \<open>.txt\<close> but not \<open>a.tx\<close>; \<open>a?c\<close> matches \<open>abc\<close> but not
    \<open>ac\<close> or \<open>abbc\<close>; \<open>a*b*c\<close> matches \<open>aXbYc\<close> and \<open>abc\<close> but not \<open>acb\<close>.
\<close>

theorem C4_wildcard_matching:
  "(NUL \<notin> set pat \<longrightarrow> NUL \<notin> set nam \<longrightarrow>
      pattern_matching pat nam 0 0 = glob_match pat nam
      \<and> pattern_matching (CHR ''?'' # pat) nam 0 0
          = (nam \<noteq> [] \<and> pattern_matching pat (tl nam) 0 0)
      \<and> pattern_matching (CHR ''*'' # pat) nam 0 0
          = (\<exists>j \<le> length nam. pattern_matching pat (drop j nam) 0 0)
      \<and> (\<not> is_wild c \<longrightarrow> c \<noteq> NUL \<longrightarrow>
           pattern_matching (c # pat) nam 0 0
           = (nam \<noteq> [] \<and> toupper c = toupper (hd nam) \<and> pattern_matching pat (tl nam) 0 0))
      \<and> pattern_matching [] nam 0 0 = (nam = []))
   \<and> pattern_matching (map toupper pat) nam 0 0 = pattern_matching pat nam 0 0
   \<and> pattern_matching pat (map toupper nam) 0 0 = pattern_matching pat nam 0 0
   \<and> ((\<forall>c \<in> set lit. \<not> is_wild c \<and> c \<noteq> NUL) \<longrightarrow> NUL \<notin> set nam \<longrightarrow>
        pattern_matching lit nam 0 0 = (map toupper lit = map toupper nam))
   \<and> (pattern_matching ''?'' nam 0 0 \<longleftrightarrow> strlen nam = 1)
   \<and> pattern_matching ''*'' nam 0 0
   \<and> pattern_matching ''*'' [] 0 0
   \<and> pattern_matching [] [] 0 infi
   \<and> (infi \<noteq> 0 \<longrightarrow> skip \<le> strlen nam \<longrightarrow> pattern_matching [] nam skip infi)
   \<and> pattern_matching ''*.txt'' ''a.txt'' 0 0
   \<and> pattern_matching ''*.txt'' ''.txt'' 0 0
   \<and> \<not> pattern_matching ''*.txt'' ''a.tx'' 0 0
   \<and> pattern_matching ''a?c'' ''abc'' 0 0
   \<and> \<not> pattern_matching ''a?c'' ''ac'' 0 0
   \<and> \<not> pattern_matching ''a?c'' ''abbc'' 0 0
   \<and> pattern_matching ''a*b*c'' ''aXbYc'' 0 0
   \<and> pattern_matching ''a*b*c'' ''abc'' 0 0
   \<and> \<not> pattern_matching ''a*b*c'' ''acb'' 0 0"
proof -
  have ref: "NUL \<notin> set pat \<longrightarrow> NUL \<notin> set nam \<longrightarrow>
      pattern_matching pat nam 0 0 = glob_match pat nam
      \<and> pattern_matching (CHR ''?'' # pat) nam 0 0
          = (nam \<noteq> [] \<and> pattern_matching pat (tl nam) 0 0)
      \<and> pattern_matching (CHR ''*'' # pat) nam 0 0
          = (\<exists>j \<le> length nam. pattern_matching pat (drop j nam) 0 0)
      \<and> (\<not> is_wild c \<longrightarrow> c \<noteq> NUL \<longrightarrow>
           pattern_matching (c # pat) nam 0 0
           = (nam \<noteq> [] \<and> toupper c = toupper (hd nam) \<and> pattern_matching pat (tl nam) 0 0))
      \<and> pattern_matching [] nam 0 0 = (nam = [])"
  proof (intro impI)
    assume np: "NUL \<notin> set pat" and nn: "NUL \<notin> set nam"
    have e: "pattern_matching q n 0 0 = glob_match q n" if "NUL \<notin> set q" "NUL \<notin> set n" for q n
      using matcher_is_glob(1) [of q n 0 0] that by (simp add: skip0_fin)
    have ntl: "NUL \<notin> set (tl nam)" using nn by (cases nam) auto
    have ndr: "NUL \<notin> set (drop j nam)" for j using nn by (auto dest: in_set_dropD)
    have q: "NUL \<notin> set (CHR ''?'' # pat)" "NUL \<notin> set (CHR ''*'' # pat)"
      using np by (simp_all add: NUL_def)
    have 1: "pattern_matching pat nam 0 0 = glob_match pat nam" using np nn by (rule e)
    have 2: "pattern_matching (CHR ''?'' # pat) nam 0 0
               = (nam \<noteq> [] \<and> pattern_matching pat (tl nam) 0 0)"
      using e [OF q(1) nn] e [OF np ntl] by (simp add: glob_question)
    have 3: "pattern_matching (CHR ''*'' # pat) nam 0 0
               = (\<exists>j \<le> length nam. pattern_matching pat (drop j nam) 0 0)"
      using e [OF q(2) nn] e [OF np ndr] by (simp add: glob_star)
    have 4: "\<not> is_wild c \<longrightarrow> c \<noteq> NUL \<longrightarrow>
           pattern_matching (c # pat) nam 0 0
           = (nam \<noteq> [] \<and> toupper c = toupper (hd nam) \<and> pattern_matching pat (tl nam) 0 0)"
    proof (intro impI)
      assume c: "\<not> is_wild c" "c \<noteq> NUL"
      with np have "NUL \<notin> set (c # pat)" by simp
      from e [OF this nn] e [OF np ntl] c(1)
      show "pattern_matching (c # pat) nam 0 0
           = (nam \<noteq> [] \<and> toupper c = toupper (hd nam) \<and> pattern_matching pat (tl nam) 0 0)"
        by (simp add: glob_literal is_wild_def)
    qed
    have 5: "pattern_matching [] nam 0 0 = (nam = [])" using e [of "[]" nam] nn by simp
    from 1 2 3 4 5
    show "pattern_matching pat nam 0 0 = glob_match pat nam
      \<and> pattern_matching (CHR ''?'' # pat) nam 0 0
          = (nam \<noteq> [] \<and> pattern_matching pat (tl nam) 0 0)
      \<and> pattern_matching (CHR ''*'' # pat) nam 0 0
          = (\<exists>j \<le> length nam. pattern_matching pat (drop j nam) 0 0)
      \<and> (\<not> is_wild c \<longrightarrow> c \<noteq> NUL \<longrightarrow>
           pattern_matching (c # pat) nam 0 0
           = (nam \<noteq> [] \<and> toupper c = toupper (hd nam) \<and> pattern_matching pat (tl nam) 0 0))
      \<and> pattern_matching [] nam 0 0 = (nam = [])"
      by blast
  qed
  have lit: "(\<forall>c \<in> set lit. \<not> is_wild c \<and> c \<noteq> NUL) \<longrightarrow> NUL \<notin> set nam \<longrightarrow>
        pattern_matching lit nam 0 0 = (map toupper lit = map toupper nam)"
    using literal_pattern [of lit nam] by blast
  have unb: "infi \<noteq> 0 \<longrightarrow> skip \<le> strlen nam \<longrightarrow> pattern_matching [] nam skip infi"
    using empty_pattern_unbounded by blast
  have rest: "pattern_matching (map toupper pat) nam 0 0 = pattern_matching pat nam 0 0
   \<and> pattern_matching pat (map toupper nam) 0 0 = pattern_matching pat nam 0 0
   \<and> (pattern_matching ''?'' nam 0 0 \<longleftrightarrow> strlen nam = 1)
   \<and> pattern_matching ''*'' nam 0 0
   \<and> pattern_matching ''*'' [] 0 0
   \<and> pattern_matching [] [] 0 infi
   \<and> pattern_matching ''*.txt'' ''a.txt'' 0 0
   \<and> pattern_matching ''*.txt'' ''.txt'' 0 0
   \<and> \<not> pattern_matching ''*.txt'' ''a.tx'' 0 0
   \<and> pattern_matching ''a?c'' ''abc'' 0 0
   \<and> \<not> pattern_matching ''a?c'' ''ac'' 0 0
   \<and> \<not> pattern_matching ''a?c'' ''abbc'' 0 0
   \<and> pattern_matching ''a*b*c'' ''aXbYc'' 0 0
   \<and> pattern_matching ''a*b*c'' ''abc'' 0 0
   \<and> \<not> pattern_matching ''a*b*c'' ''acb'' 0 0"
    by (simp only: pattern_matching_toupper_pat(1) pattern_matching_toupper_nam(1)
        question_matches_one star_matches_all both_exhausted
        match_star_txt_1 match_star_txt_2 match_star_txt_3 match_question_1 match_question_2
        match_question_3 match_two_stars_1 match_two_stars_2 match_two_stars_3
        simp_thms not_False_eq_True)
  from ref lit unb rest show ?thesis by (simp only: simp_thms)
qed

text \<open>
  The theorem on samples: a pattern with both wildcards against a name it matches and one
  it does not, two question marks against a name of one character, a literal pattern in
  mixed case, and the empty pattern behind a pre-skip under an unbounded tail.
\<close>

theorem C4_wildcard_matching_witness:
  "NUL \<notin> set ''?b*.T?T'' \<and> NUL \<notin> set ''abcd.txt''
   \<and> pattern_matching ''?b*.T?T'' ''abcd.txt'' 0 0
   \<and> \<not> pattern_matching ''?b*.T?T'' ''abcd.tt'' 0 0
   \<and> \<not> pattern_matching ''??'' ''a'' 0 0
   \<and> pattern_matching ''??'' ''ab'' 0 0
   \<and> \<not> pattern_matching ''??'' ''abc'' 0 0
   \<and> pattern_matching ''ReadMe.Txt'' ''README.TXT'' 0 0
   \<and> \<not> pattern_matching ''ReadMe.Txt'' ''README.TX'' 0 0
   \<and> pattern_matching [] ''ab'' 2 1"
proof -
  have n: "NUL \<notin> set ''?b*.T?T''" "NUL \<notin> set ''abcd.txt''" "NUL \<notin> set ''abcd.tt''"
    "NUL \<notin> set ''??''" "NUL \<notin> set ''a''" "NUL \<notin> set ''ab''" "NUL \<notin> set ''abc''"
    "NUL \<notin> set ''README.TXT''" "NUL \<notin> set ''README.TX''"
    by (simp_all add: NUL_def)
  have g: "glob_match ''?b*.T?T'' ''abcd.txt''" "\<not> glob_match ''?b*.T?T'' ''abcd.tt''"
    "\<not> glob_match ''??'' ''a''" "glob_match ''??'' ''ab''" "\<not> glob_match ''??'' ''abc''"
    by code_simp+
  have h1: "\<forall>c \<in> set ''ReadMe.Txt''. \<not> is_wild c \<and> c \<noteq> NUL"
    by (simp add: is_wild_def NUL_def)
  have h3: "(1::int) \<noteq> 0" "(2::nat) \<le> strlen ''ab''"
    by (simp_all add: strlen_def NUL_def)
  have u: "map toupper ''ReadMe.Txt'' = map toupper ''README.TXT''"
    "map toupper ''ReadMe.Txt'' \<noteq> map toupper ''README.TX''"
    by code_simp+
  note ref = C4_wildcard_matching [THEN conjunct1, rule_format, THEN conjunct1]
  note lit = C4_wildcard_matching [THEN conjunct2, THEN conjunct2, THEN conjunct2,
      THEN conjunct1, THEN mp, THEN mp]
  note unb = C4_wildcard_matching [THEN conjunct2, THEN conjunct2, THEN conjunct2,
      THEN conjunct2, THEN conjunct2, THEN conjunct2, THEN conjunct2, THEN conjunct2,
      THEN conjunct1, rule_format]
  from ref [OF n(1) n(2)] g(1) have a: "pattern_matching ''?b*.T?T'' ''abcd.txt'' 0 0" by simp
  from ref [OF n(1) n(3)] g(2) have b: "\<not> pattern_matching ''?b*.T?T'' ''abcd.tt'' 0 0" by simp
  from ref [OF n(4) n(5)] g(3) have c: "\<not> pattern_matching ''??'' ''a'' 0 0" by simp
  from ref [OF n(4) n(6)] g(4) have d: "pattern_matching ''??'' ''ab'' 0 0" by simp
  from ref [OF n(4) n(7)] g(5) have e: "\<not> pattern_matching ''??'' ''abc'' 0 0" by simp
  from lit [OF h1 n(8)]
  have f: "pattern_matching ''ReadMe.Txt'' ''README.TXT'' 0 0" by (simp only: u(1) simp_thms)
  from lit [OF h1 n(9)]
  have h: "\<not> pattern_matching ''ReadMe.Txt'' ''README.TX'' 0 0"
    by (simp only: u(2) simp_thms)
  from unb [OF h3] have i: "pattern_matching [] ''ab'' 2 1" .
  from n(1,2) a b c d e f h i show ?thesis by (simp only: simp_thms)
qed


section \<open>Drive table and path resolution (vfs.c)\<close>

text \<open>
  The error codes of \<open>errno.h\<close> (newlib's numbering) that the layer returns negated.
\<close>

definition ENOENT :: int where "ENOENT = 2"
definition EIO :: int where "EIO = 5"
definition ENXIO :: int where "ENXIO = 6"
definition EBADF :: int where "EBADF = 9"
definition ENOMEM :: int where "ENOMEM = 12"
definition EBUSY :: int where "EBUSY = 16"
definition EEXIST :: int where "EEXIST = 17"
definition ENODEV :: int where "ENODEV = 19"
definition ENOTDIR :: int where "ENOTDIR = 20"
definition EINVAL :: int where "EINVAL = 22"
definition EMFILE :: int where "EMFILE = 24"
definition ENOSPC :: int where "ENOSPC = 28"
definition EROFS :: int where "EROFS = 30"
definition ENOLCK :: int where "ENOLCK = 46"
definition EDOOFUS :: int where "EDOOFUS = 88"
definition ETIMEDOUT :: int where "ETIMEDOUT = 116"

text \<open>
  \<open>tolower\<close>, \<open>strncasecmp\<close> and \<open>strchr\<close> are the C library's, written after the C
  standard and POSIX: \<open>strncasecmp\<close> compares at most \<open>n\<close> characters after folding to lower
  case and stops behind a common NUL; \<open>strchr\<close> returns the offset of the first occurrence
  before the terminator, \<open>None\<close> for the null pointer.
\<close>

definition tolower :: "char \<Rightarrow> char" where
  "tolower c = (let n = (of_char c :: nat) in if 65 \<le> n \<and> n \<le> 90 then char_of (n + 32) else c)"

fun strncasecmp :: "string \<Rightarrow> string \<Rightarrow> nat \<Rightarrow> int" where
  "strncasecmp s1 s2 0 = 0"
| "strncasecmp s1 s2 (Suc n) =
     (let c1 = tolower (peek s1); c2 = tolower (peek s2) in
      if c1 \<noteq> c2 then int (of_char c1) - int (of_char c2)
      else if c1 = NUL then 0
      else strncasecmp (tl s1) (tl s2) n)"

fun strchr :: "string \<Rightarrow> char \<Rightarrow> nat option" where
  "strchr [] c = (if c = NUL then Some 0 else None)"
| "strchr (x # xs) c =
     (if x = c then Some 0
      else if x = NUL then None
      else map_option Suc (strchr xs c))"

text \<open>
  \<open>FileSystem_t\<close> of vfs.h.  \<open>type\<close> is the enum \<open>Fs_t\<close> with the flag \<open>FS_FIXED = 0x80\<close>
  or-ed in: \<open>fstype\<close> is \<open>type & ~FS_FIXED\<close> and \<open>fixed\<close> is \<open>type & FS_FIXED\<close>.  The union holds
  the backend's state; the layer itself only tests and sets its first pointer (\<open>fatfs.fs\<close>,
  \<open>lfs.fs\<close>): \<open>Null\<close>, a pointer to static storage of the configuration (\<open>Static\<close>, for
  which \<open>malloc_usable_size\<close> is 0) or a block this layer allocated (\<open>Heap\<close>).  \<open>eventcb\<close>
  says whether the callback pointer is set.  The table \<open>vFileSystem[]\<close> is the list of its
  entries before the terminator (the entry whose \<open>drive\<close> is the null pointer); \<open>index\<close> is
  an \<open>int8_t\<close> that holds 0 or the entry's position plus one.
\<close>

datatype Fs_t = FS_NONE | FS_ROOT | FS_FATFS | FS_LITTLEFS | FS_JESFS | FS_ANYFS

datatype fs_ptr = Null | Static | Heap

record FileSystem_t =
  drive :: string
  fs :: fs_ptr
  eventcb :: bool
  fstype :: Fs_t
  fixed :: bool
  index :: int
  namelen :: nat

text \<open>
  \<open>_vfs_find_entry(name, force)\<close>: \<open>find_loop\<close> is its \<open>for\<close> loop, \<open>i\<close> the loop counter;
  after the loop \<open>i\<close> is the number of entries.
\<close>

fun find_loop :: "FileSystem_t list \<Rightarrow> nat \<Rightarrow> string \<Rightarrow> bool \<Rightarrow> nat option" where
  "find_loop [] i name force = None"
| "find_loop (e # es) i name force =
     (if strncasecmp name (drive e) (namelen e) = 0 \<and> (force \<or> index e = int i + 1)
      then Some i
      else find_loop es (i + 1) name force)"

definition vfs_find_entry :: "FileSystem_t list \<Rightarrow> string option \<Rightarrow> bool \<Rightarrow> int" where
  "vfs_find_entry tbl name force =
     (case name of
        None \<Rightarrow> - ENOENT
      | Some nm \<Rightarrow>
          (case find_loop tbl 0 nm force of
             Some i \<Rightarrow> int i
           | None \<Rightarrow> if length tbl = 1 \<and> strchr nm CHR '':'' = None then 0 else - ENOENT))"

text \<open>
  An entry accepts a path when the path starts with its prefix (compared without case over
  the cached prefix length) and the entry is mounted or \<open>force\<close> is set.
\<close>

definition accepts :: "FileSystem_t list \<Rightarrow> nat \<Rightarrow> string \<Rightarrow> bool \<Rightarrow> bool" where
  "accepts tbl i name force =
     (strncasecmp name (drive (tbl ! i)) (namelen (tbl ! i)) = 0
      \<and> (force \<or> index (tbl ! i) = int i + 1))"

definition mk_drive :: "string \<Rightarrow> Fs_t \<Rightarrow> int \<Rightarrow> FileSystem_t" where
  "mk_drive d t ix = \<lparr>drive = d, fs = Static, eventcb = True, fstype = t, fixed = True,
     index = ix, namelen = strlen d\<rparr>"

lemma find_loop_Some:
  "find_loop es i name force = Some r \<Longrightarrow>
     i \<le> r \<and> r < i + length es
     \<and> strncasecmp name (drive (es ! (r - i))) (namelen (es ! (r - i))) = 0
     \<and> (force \<or> index (es ! (r - i)) = int r + 1)
     \<and> (\<forall>j < r - i. \<not> (strncasecmp name (drive (es ! j)) (namelen (es ! j)) = 0
            \<and> (force \<or> index (es ! j) = int (i + j) + 1)))"
proof (induction es i name force rule: find_loop.induct)
  case (1 i name force)
  then show ?case by simp
next
  case (2 e es i name force)
  show ?case
  proof (cases "strncasecmp name (drive e) (namelen e) = 0 \<and> (force \<or> index e = int i + 1)")
    case True
    with 2(2) show ?thesis by auto
  next
    case False
    with 2(2) have f: "find_loop es (i + 1) name force = Some r" by auto
    from 2(1) [OF False f] have ih: "i + 1 \<le> r" "r < i + 1 + length es"
      "strncasecmp name (drive (es ! (r - (i + 1)))) (namelen (es ! (r - (i + 1)))) = 0"
      "force \<or> index (es ! (r - (i + 1))) = int r + 1"
      "\<forall>j < r - (i + 1). \<not> (strncasecmp name (drive (es ! j)) (namelen (es ! j)) = 0
            \<and> (force \<or> index (es ! j) = int (i + 1 + j) + 1))" by auto
    from ih(1) have ri: "r - i = Suc (r - (i + 1))" by simp
    have "\<And>j. j < r - i \<Longrightarrow> \<not> (strncasecmp name (drive ((e # es) ! j)) (namelen ((e # es) ! j)) = 0
            \<and> (force \<or> index ((e # es) ! j) = int (i + j) + 1))"
    proof -
      fix j assume j: "j < r - i"
      show "\<not> (strncasecmp name (drive ((e # es) ! j)) (namelen ((e # es) ! j)) = 0
            \<and> (force \<or> index ((e # es) ! j) = int (i + j) + 1))"
      proof (cases j)
        case 0
        with False show ?thesis by simp
      next
        case (Suc j')
        with j ri have "j' < r - (i + 1)" by simp
        with ih(5) Suc show ?thesis by simp
      qed
    qed
    with ih ri show ?thesis by auto
  qed
qed

lemma find_loop_None:
  "find_loop es i name force = None \<Longrightarrow> j < length es \<Longrightarrow>
     \<not> (strncasecmp name (drive (es ! j)) (namelen (es ! j)) = 0
            \<and> (force \<or> index (es ! j) = int (i + j) + 1))"
proof (induction es i name force arbitrary: j rule: find_loop.induct)
  case (1 i name force)
  then show ?case by simp
next
  case (2 e es i name force)
  from 2(2) have F: "\<not> (strncasecmp name (drive e) (namelen e) = 0 \<and> (force \<or> index e = int i + 1))"
    and f: "find_loop es (i + 1) name force = None" by (auto split: if_splits)
  show ?case
  proof (cases j)
    case 0
    with F show ?thesis by simp
  next
    case (Suc j')
    with 2(3) have "j' < length es" by simp
    from 2(1) [OF F f this] Suc show ?thesis by simp
  qed
qed


lemma tolower_NUL_iff: "tolower c = NUL \<longleftrightarrow> c = NUL"
proof -
  have "char_of (of_char c + 32 :: nat) \<noteq> NUL"
    if "65 \<le> (of_char c :: nat)" "(of_char c :: nat) \<le> 90"
  proof
    assume "char_of (of_char c + 32 :: nat) = NUL"
    then have "(of_char (char_of (of_char c + 32 :: nat)) :: nat) = of_char NUL" by simp
    moreover have "(of_char c + 32 :: nat) < 256" using that by arith
    ultimately show False using that by (simp add: NUL_def)
  qed
  moreover have "c \<noteq> NUL" if "65 \<le> (of_char c :: nat)"
    using that by (auto simp: NUL_def)
  ultimately show ?thesis by (auto simp: tolower_def Let_def)
qed

lemma tolower_NUL: "tolower NUL = NUL"
  by (simp add: tolower_NUL_iff)

lemma tolower_NUL_iff2: "NUL = tolower c \<longleftrightarrow> c = NUL"
  using tolower_NUL_iff [of c] by auto

lemma strncasecmp_prefix:
  assumes "NUL \<notin> set d" and "NUL \<notin> set name"
  shows "strncasecmp name d (length d) = 0 \<longleftrightarrow>
         length d \<le> length name \<and> map tolower (take (length d) name) = map tolower d"
  using assms
proof (induction d arbitrary: name)
  case Nil
  then show ?case by simp
next
  case (Cons c d)
  show ?case
  proof (cases name)
    case Nil
    with Cons.prems show ?thesis by (auto simp: Let_def tolower_NUL_iff tolower_NUL_iff2 tolower_NUL)
  next
    case (Cons x xs)
    with Cons.prems Cons.IH [of xs] show ?thesis
      by (auto simp: Let_def tolower_NUL_iff tolower_NUL_iff2 tolower_NUL)
  qed
qed

lemma strchr_None_iff:
  assumes "NUL \<notin> set s" and "c \<noteq> NUL"
  shows "strchr s c = None \<longleftrightarrow> c \<notin> set s"
  using assms by (induction s) auto

lemma find_loop_accepts:
  assumes "find_loop tbl 0 name force = Some r"
  shows "r < length tbl \<and> accepts tbl r name force \<and> (\<forall>j<r. \<not> accepts tbl j name force)"
  using find_loop_Some [OF assms] by (simp add: accepts_def)

lemma find_loop_rejects:
  assumes "find_loop tbl 0 name force = None" and "j < length tbl"
  shows "\<not> accepts tbl j name force"
  using find_loop_None [OF assms] by (simp add: accepts_def)

lemma find_entry_accepted:
  assumes "\<exists>i<length tbl. accepts tbl i name force"
  shows "\<exists>r<length tbl. vfs_find_entry tbl (Some name) force = int r
           \<and> accepts tbl r name force \<and> (\<forall>j<r. \<not> accepts tbl j name force)"
proof (cases "find_loop tbl 0 name force")
  case None
  with assms find_loop_rejects show ?thesis by blast
next
  case (Some r)
  from find_loop_accepts [OF Some] Some show ?thesis
    by (auto simp: vfs_find_entry_def)
qed

lemma find_entry_not_accepted:
  assumes "\<not> (\<exists>i<length tbl. accepts tbl i name force)"
  shows "vfs_find_entry tbl (Some name) force =
           (if length tbl = 1 \<and> strchr name CHR '':'' = None then 0 else - ENOENT)"
proof (cases "find_loop tbl 0 name force")
  case None
  then show ?thesis by (simp add: vfs_find_entry_def)
next
  case (Some r)
  from find_loop_accepts [OF Some] assms show ?thesis by blast
qed

definition drives_AB :: "FileSystem_t list" where
  "drives_AB = [mk_drive ''A:'' FS_FATFS 1, mk_drive ''B:'' FS_FATFS 2]"

definition drives_A :: "FileSystem_t list" where
  "drives_A = [mk_drive ''A:'' FS_FATFS 1]"

lemma find_entry_examples:
  "vfs_find_entry drives_AB (Some ''A:/x'') False = 0"
  "vfs_find_entry drives_AB (Some ''C:/x'') False = - ENOENT"
  "vfs_find_entry drives_A (Some ''/x'') False = 0"
  "vfs_find_entry drives_AB (Some ''b:/x'') False = 1"
  by code_simp+


lemma strlen_NUL_free: "NUL \<notin> set s \<Longrightarrow> strlen s = length s"
  by (induction s) (auto simp: strlen_def)

text \<open>
  Claim C1 (drive resolution).  \<open>_vfs_find_entry(path, force)\<close> returns the first entry, in
  registration order, that accepts the path: the entry's prefix, over its cached length,
  equals the path's prefix up to case, and \<open>force\<close> is set or the entry is mounted
  (\<open>index = position + 1\<close>).  When no entry accepts the path, the result is 0 if exactly
  one drive is registered and the path holds no \<open>:\<close>, and \<open>-ENOENT\<close> otherwise.  With the
  mounted drives \<open>A:\<close>, \<open>B:\<close> the path \<open>A:/x\<close> resolves to 0, \<open>b:/x\<close> to 1 and \<open>C:/x\<close> to
  \<open>-ENOENT\<close>; with \<open>A:\<close> alone \<open>/x\<close> resolves to 0.
\<close>

theorem C1_drive_resolution:
  "((\<exists>i<length tbl. accepts tbl i name force) \<longrightarrow>
      (\<exists>r<length tbl. vfs_find_entry tbl (Some name) force = int r
          \<and> accepts tbl r name force \<and> (\<forall>j<r. \<not> accepts tbl j name force)))
   \<and> (\<not> (\<exists>i<length tbl. accepts tbl i name force) \<longrightarrow>
        vfs_find_entry tbl (Some name) force =
          (if length tbl = 1 \<and> strchr name CHR '':'' = None then 0 else - ENOENT))
   \<and> (NUL \<notin> set name \<longrightarrow> NUL \<notin> set (drive (tbl ! k)) \<longrightarrow>
        namelen (tbl ! k) = strlen (drive (tbl ! k)) \<longrightarrow>
        accepts tbl k name force =
          (length (drive (tbl ! k)) \<le> length name
           \<and> map tolower (take (length (drive (tbl ! k))) name) = map tolower (drive (tbl ! k))
           \<and> (force \<or> index (tbl ! k) = int k + 1)))
   \<and> (NUL \<notin> set name \<longrightarrow> (strchr name CHR '':'' = None \<longleftrightarrow> CHR '':'' \<notin> set name))
   \<and> vfs_find_entry drives_AB (Some ''A:/x'') False = 0
   \<and> vfs_find_entry drives_AB (Some ''C:/x'') False = - ENOENT
   \<and> vfs_find_entry drives_A (Some ''/x'') False = 0
   \<and> vfs_find_entry drives_AB (Some ''b:/x'') False = 1"
proof -
  have a: "(\<exists>i<length tbl. accepts tbl i name force) \<longrightarrow>
      (\<exists>r<length tbl. vfs_find_entry tbl (Some name) force = int r
          \<and> accepts tbl r name force \<and> (\<forall>j<r. \<not> accepts tbl j name force))"
    using find_entry_accepted by blast
  have b: "\<not> (\<exists>i<length tbl. accepts tbl i name force) \<longrightarrow>
        vfs_find_entry tbl (Some name) force =
          (if length tbl = 1 \<and> strchr name CHR '':'' = None then 0 else - ENOENT)"
    using find_entry_not_accepted by blast
  have c: "NUL \<notin> set name \<longrightarrow> NUL \<notin> set (drive (tbl ! k)) \<longrightarrow>
        namelen (tbl ! k) = strlen (drive (tbl ! k)) \<longrightarrow>
        accepts tbl k name force =
          (length (drive (tbl ! k)) \<le> length name
           \<and> map tolower (take (length (drive (tbl ! k))) name) = map tolower (drive (tbl ! k))
           \<and> (force \<or> index (tbl ! k) = int k + 1))"
    using strncasecmp_prefix [of "drive (tbl ! k)" name]
    by (auto simp: accepts_def strlen_NUL_free)
  have d: "NUL \<notin> set name \<longrightarrow> (strchr name CHR '':'' = None \<longleftrightarrow> CHR '':'' \<notin> set name)"
    using strchr_None_iff [of name "CHR '':''"] by (simp add: NUL_def)
  from a b c d find_entry_examples show ?thesis by blast
qed

theorem C1_drive_resolution_witness:
  "vfs_find_entry drives_AB (Some ''b:/x'') False = 1
   \<and> accepts drives_AB 1 ''b:/x'' False
   \<and> \<not> accepts drives_AB 0 ''b:/x'' False
   \<and> vfs_find_entry [mk_drive ''A:'' FS_JESFS 0] (Some ''dir/x'') False = 0
   \<and> vfs_find_entry [mk_drive ''A:'' FS_JESFS 0] (Some ''A:/x'') False = - ENOENT"
proof -
  have n: "NUL \<notin> set ''b:/x''" "NUL \<notin> set (drive (drives_AB ! 0))"
    "NUL \<notin> set (drive (drives_AB ! 1))"
    "namelen (drives_AB ! 0) = strlen (drive (drives_AB ! 0))"
    "namelen (drives_AB ! 1) = strlen (drive (drives_AB ! 1))"
    by (simp_all add: NUL_def drives_AB_def mk_drive_def)
  have e0: "\<not> (length (drive (drives_AB ! 0)) \<le> length ''b:/x''
           \<and> map tolower (take (length (drive (drives_AB ! 0))) ''b:/x'')
               = map tolower (drive (drives_AB ! 0))
           \<and> (False \<or> index (drives_AB ! 0) = int 0 + 1))"
    by code_simp
  have e1: "length (drive (drives_AB ! 1)) \<le> length ''b:/x''
           \<and> map tolower (take (length (drive (drives_AB ! 1))) ''b:/x'')
               = map tolower (drive (drives_AB ! 1))
           \<and> (False \<or> index (drives_AB ! 1) = int 1 + 1)"
    by code_simp
  from C1_drive_resolution [of drives_AB "''b:/x''" False 0] n e0
  have a0: "\<not> accepts drives_AB 0 ''b:/x'' False" by blast
  from C1_drive_resolution [of drives_AB "''b:/x''" False 1] n e1
  have a1: "accepts drives_AB 1 ''b:/x'' False" by blast
  have len: "length drives_AB = 2" by (simp add: drives_AB_def)
  from len have "(1::nat) < length drives_AB" by simp
  with a1 have "\<exists>i<length drives_AB. accepts drives_AB i ''b:/x'' False" by blast
  with C1_drive_resolution [of drives_AB "''b:/x''" False 0]
  obtain r where r: "r < length drives_AB"
    "vfs_find_entry drives_AB (Some ''b:/x'') False = int r"
    "accepts drives_AB r ''b:/x'' False" by blast
  from r(1,3) a0 len have "r = 1" by (cases r) auto
  with r(2) have f: "vfs_find_entry drives_AB (Some ''b:/x'') False = 1" by simp
  let ?t = "[mk_drive ''A:'' FS_JESFS 0]"
  have u: "\<not> (\<exists>i<length ?t. accepts ?t i ''dir/x'' False)"
    "\<not> (\<exists>i<length ?t. accepts ?t i ''A:/x'' False)"
    by (simp_all add: accepts_def mk_drive_def)
  have s1: "length ?t = 1 \<and> strchr ''dir/x'' CHR '':'' = None"
    by (simp add: NUL_def)
  have s2: "\<not> (length ?t = 1 \<and> strchr ''A:/x'' CHR '':'' = None)"
    by (simp add: NUL_def)
  from C1_drive_resolution [of ?t "''dir/x''" False 0] u(1)
  have "vfs_find_entry ?t (Some ''dir/x'') False =
          (if length ?t = 1 \<and> strchr ''dir/x'' CHR '':'' = None then 0 else - ENOENT)"
    by blast
  then have g: "vfs_find_entry ?t (Some ''dir/x'') False = 0"
    by (simp only: s1 if_True simp_thms)
  from C1_drive_resolution [of ?t "''A:/x''" False 0] u(2)
  have "vfs_find_entry ?t (Some ''A:/x'') False =
          (if length ?t = 1 \<and> strchr ''A:/x'' CHR '':'' = None then 0 else - ENOENT)"
    by blast
  then have h: "vfs_find_entry ?t (Some ''A:/x'') False = - ENOENT"
    using s2 by (simp only: if_False)
  from f a1 a0 g h show ?thesis by blast
qed


section \<open>Timestamp codec (vfs.c)\<close>

text \<open>
  FatFs's \<open>FILINFO\<close> with the four packed 16-bit fields the codec reads and writes (the
  creation fields exist up to FatFs revision 32020, where \<open>modified\<close> selects the pair; later
  revisions use \<open>fdate\<close>/\<open>ftime\<close> only), and the fields of the C library's \<open>struct tm\<close> that
  the encoder reads.  \<open>time_t\<close> is \<open>int\<close>: the values stay far below 2^63.
\<close>

record FILINFO =
  fdate :: u16
  ftime :: u16
  fcdate :: u16
  fctime :: u16

record tm =
  tm_sec :: int
  tm_min :: int
  tm_hour :: int
  tm_mday :: int
  tm_mon :: int
  tm_year :: int

definition isleap :: "int \<Rightarrow> bool" where
  "isleap year = (year mod 4 = 0 \<and> (year mod 100 \<noteq> 0 \<or> year mod 400 = 0))"

definition vMonths :: "bool \<Rightarrow> int list" where
  "vMonths leap =
     (if leap then [31, 29, 31, 30, 31, 30, 31, 31, 30, 31, 30, 31]
      else [31, 28, 31, 30, 31, 30, 31, 31, 30, 31, 30, 31])"

text \<open>
  \<open>_ff_timestamp\<close>: \<open>year_loop\<close> is the loop \<open>for (; y < x; y++)\<close> and returns \<open>y\<close> and \<open>t\<close>;
  \<open>month_loop\<close> is the loop over the months before the month field.  The table
  \<open>vMonths\<close> has 12 entries a row: a month field above 13 makes the source read behind the
  row, which the model returns as \<open>None\<close>.
\<close>

function year_loop :: "int \<Rightarrow> int \<Rightarrow> int \<Rightarrow> int \<times> int" where
  "year_loop y x t =
     (if y < x then year_loop (y + 1) x (t + (if isleap y then 366 else 365)) else (y, t))"
  by pat_completeness auto
termination
  by (relation "measure (\<lambda>(y, x, t). nat (x - y))") auto

declare year_loop.simps [simp del]

function month_loop :: "bool \<Rightarrow> int \<Rightarrow> int \<Rightarrow> int \<Rightarrow> int option" where
  "month_loop leap x lim t =
     (if x < lim then
        (if 0 \<le> x \<and> x < 12 then month_loop leap (x + 1) lim (t + vMonths leap ! nat x)
         else None)
      else Some t)"
  by pat_completeness auto
termination
  by (relation "measure (\<lambda>(leap, x, lim, t). nat (lim - x))") auto

declare month_loop.simps [simp del]

definition ff_timestamp :: "FILINFO \<Rightarrow> bool \<Rightarrow> int option" where
  "ff_timestamp info modified =
     (let n = (if modified then fdate info else fcdate info);
          x = uint (drop_bit 9 n AND 0x7F) + 1980;
          (y, t) = (if x > 2018 then year_loop 2018 x (1514764800 div 86400)
                    else year_loop 1970 x 0)
      in case month_loop (isleap y) 0 (uint (drop_bit 5 n AND 0xF) - 1) t of
           None \<Rightarrow> None
         | Some t \<Rightarrow>
             (let t = t + (uint (n AND 0x1F) - 1);
                  t = t * 86400;
                  n = (if modified then ftime info else fctime info);
                  t = t + 3600 * uint (drop_bit 11 n AND 0x1F);
                  t = t + 60 * uint (drop_bit 5 n AND 0x3F);
                  t = t + 2 * uint (drop_bit 0 n AND 0x1F)
              in Some t))"

text \<open>
  \<open>_ff_fat_timedate\<close>: \<open>p\<close> is the result of the C library's \<open>gmtime(&julian)\<close>, taken as
  the argument.  The fields are computed in \<open>int\<close> and stored in a \<open>WORD\<close>
  (\<open>word_of_int\<close>); \<open>fat_date\<close> and \<open>fat_time\<close> are the two values of \<open>v\<close>.
\<close>

definition fat_date :: "tm \<Rightarrow> u16" where
  "fat_date p =
     (if tm_year p > 80 then
        word_of_int (push_bit 9 ((tm_year p - 80) AND 0x7F))
        OR word_of_int (push_bit 5 (tm_mon p + 1))
        OR word_of_int (push_bit 0 (tm_mday p))
      else 0)"

definition fat_time :: "tm \<Rightarrow> u16" where
  "fat_time p =
     word_of_int (push_bit 11 (tm_hour p))
     OR word_of_int (push_bit 5 (tm_min p))
     OR word_of_int (push_bit 0 (tm_sec p div 2))"

definition ff_fat_timedate :: "FILINFO \<Rightarrow> tm \<Rightarrow> bool \<Rightarrow> FILINFO" where
  "ff_fat_timedate info p modified =
     (let info = (if modified then info\<lparr>fdate := fat_date p\<rparr> else info\<lparr>fcdate := fat_date p\<rparr>)
      in if modified then info\<lparr>ftime := fat_time p\<rparr> else info\<lparr>fctime := fat_time p\<rparr>)"

text \<open>
  The reference for a round trip: POSIX's "seconds since the Epoch" of a broken-down UTC
  time, with the day of the year from the usual table of days before each month.
\<close>

definition tm_yday :: "tm \<Rightarrow> int" where
  "tm_yday p =
     [0, 31, 59, 90, 120, 151, 181, 212, 243, 273, 304, 334] ! nat (tm_mon p)
     + (if isleap (tm_year p + 1900) \<and> tm_mon p \<ge> 2 then 1 else 0)
     + tm_mday p - 1"

definition timegm :: "tm \<Rightarrow> int" where
  "timegm p =
     tm_sec p + tm_min p * 60 + tm_hour p * 3600 + tm_yday p * 86400
     + (tm_year p - 70) * 31536000 + ((tm_year p - 69) div 4) * 86400
     - ((tm_year p - 1) div 100) * 86400 + ((tm_year p + 299) div 400) * 86400"

definition FILINFO_zero :: FILINFO where
  "FILINFO_zero = \<lparr>fdate = 0, ftime = 0, fcdate = 0, fctime = 0\<rparr>"

definition tm_1980 :: tm where
  "tm_1980 = \<lparr>tm_sec = 0, tm_min = 0, tm_hour = 0, tm_mday = 1, tm_mon = 0, tm_year = 80\<rparr>"

text \<open>
  Inside the range the round trip holds on samples: a day in February of the leap year
  2000, the last second the fields can hold in 2107, and the first second of 1981 through
  the creation fields.  A year up to 1980 gets the date field 0.
\<close>

definition tm_2000 :: tm where
  "tm_2000 = \<lparr>tm_sec = 56, tm_min = 34, tm_hour = 12, tm_mday = 28, tm_mon = 1, tm_year = 100\<rparr>"

definition tm_2107 :: tm where
  "tm_2107 = \<lparr>tm_sec = 58, tm_min = 59, tm_hour = 23, tm_mday = 28, tm_mon = 11, tm_year = 207\<rparr>"

definition tm_1981 :: tm where
  "tm_1981 = \<lparr>tm_sec = 0, tm_min = 0, tm_hour = 0, tm_mday = 1, tm_mon = 0, tm_year = 81\<rparr>"

lemma fat_date_sentinel: "tm_year p \<le> 80 \<Longrightarrow> fat_date p = 0"
  by (simp add: fat_date_def)

lemma round_trip_examples:
  "ff_timestamp (ff_fat_timedate FILINFO_zero tm_2000 True) True = Some (timegm tm_2000)"
  "ff_timestamp (ff_fat_timedate FILINFO_zero tm_2107 True) True = Some (timegm tm_2107)"
  "ff_timestamp (ff_fat_timedate FILINFO_zero tm_1981 False) False = Some (timegm tm_1981)"
  "timegm tm_2000 = 951741296"
  by code_simp+

text \<open>
  Claim C3 (timestamp codec round-trip), at its lower bound.  The claim covers the years
  1980 to 2107 and puts the zero sentinel at years before 1980.  The encoder tests
  \<open>tm_year > 80\<close>, so a time in 1980 itself gets the date field 0: for 1980-01-01 00:00:00
  (epoch second 315532800) both fields are 0, and the decoder reads them as 315446400, the
  last day of 1979.  The year 1980 does not survive the round trip.
\<close>

theorem C3_year_1980_not_reproduced:
   "fdate (ff_fat_timedate FILINFO_zero tm_1980 True) = 0
    \<and> ff_timestamp (ff_fat_timedate FILINFO_zero tm_1980 True) True = Some 315446400
    \<and> timegm tm_1980 = 315532800"
  by code_simp





section \<open>Backends, state and the mount manager (vfs.c)\<close>

text \<open>
  The backends (FatFs, littlefs, JesFs) and the allocator are outside the layer.  Every call
  the layer makes to them is a \<open>call\<close>; the state records the calls made so far in \<open>trace\<close>,
  oldest first, and a backend is any function from the calls made so far and the call at
  hand to the value the call returns.  A theorem for all backends so holds for whatever the
  wrapped libraries answer.  \<open>events\<close> records the invocations of the entries' callbacks: the
  position of the entry and the event.  What a callback does in turn is the observer's.

  The model is the build with all three backends compiled in (\<open>USE_FATFS\<close>,
  \<open>USE_LITTLEFS\<close>, \<open>USE_JESFS\<close>); an entry of a type without a \<open>case\<close> takes the
  \<open>switch\<close>'s implicit default, as the entry of a backend that is not compiled in does.
\<close>

datatype VfsEvent_t = EVT_MOUNT | EVT_UNMOUNT | EVT_MOUNT_FAIL

datatype ff_flag = FA_READ | FA_WRITE | FA_CREATE_ALWAYS | FA_CREATE_NEW | FA_OPEN_ALWAYS

datatype lfs_flag = LFS_O_RDONLY | LFS_O_WRONLY | LFS_O_CREAT | LFS_O_EXCL | LFS_O_TRUNC

datatype jes_flag = SF_OPEN_READ | SF_OPEN_WRITE | SF_OPEN_CRC | SF_OPEN_CREATE | SF_OPEN_RAW

datatype lfs_attr = LFS_ATTR_LABEL | LFS_ATTR_CREATE | LFS_ATTR_MODIFY

datatype fat_call =
    F_mount bool string bool
  | F_mkfs string
  | F_open string "ff_flag list"
  | F_close
  | F_read nat
  | F_lseek u32
  | F_tell
  | F_size
  | F_opendir string
  | F_readdir
  | F_closedir
  | F_mkdir string
  | F_unlink string
  | F_rename string "string option"
  | F_stat string
  | F_getfree string
  | F_getlabel string
  | F_setlabel string
  | F_chmod string "8 word"
  | F_utime string FILINFO
  | Fno_fsize
  | F_nclst
  | F_csize
  | F_n_fatent

datatype lfs_call =
    Lfs_mount
  | Lfs_unmount
  | Lfs_format
  | Lfs_file_opencfg string "lfs_flag list"
  | Lfs_file_close
  | Lfs_file_read nat
  | Lfs_file_seek u32 int
  | Lfs_dir_open string
  | Lfs_dir_read
  | Lfs_dir_close
  | Lfs_mkdir string
  | Lfs_remove string
  | Lfs_rename string string
  | Lfs_stat string
  | Lfs_info_size
  | Lfs_fs_size
  | Lfs_getattr string lfs_attr
  | Lfs_setattr string lfs_attr
  | Lfs_cfg_block_size
  | Lfs_cfg_block_count

datatype jes_call =
    Fs_start
  | Fs_format
  | Fs_open string "jes_flag list"
  | Fs_close
  | Fs_read nat
  | Fs_delete
  | Fs_rename
  | Fs_info u16
  | Jes_file_len
  | Jes_file_pos
  | Sflash_total_size
  | Sflash_available_size

datatype call =
    Vfs_malloc nat
  | Vfs_free nat
  | Time
  | FatFs fat_call
  | LittleFs nat lfs_call
  | JesFs jes_call

text \<open>
  \<open>rc\<close> is the value a call returns (for the calls that read a field the backend filled in,
  \<open>F_tell\<close>, \<open>F_size\<close>, \<open>Fno_fsize\<close>, \<open>Jes_file_len\<close> and the like, the field's value).
  \<open>stored\<close> is the string a call stores for its caller: the entry name of a directory
  read.  Both depend on the calls made so far, so the successive reads of a directory may
  answer differently, and nothing bounds their number.
  \<open>listing\<close> is what the successive reads of a file will deliver once the call has opened
  it: each read's return value and the bytes it stores.  Behind the last byte of a file
  every read delivers no byte.
\<close>

record backend =
  rc :: "call list \<Rightarrow> call \<Rightarrow> int"
  stored :: "call list \<Rightarrow> call \<Rightarrow> string"
  listing :: "call list \<Rightarrow> call \<Rightarrow> (int \<times> string) list"

record vfs_state =
  vFileSystem :: "FileSystem_t list"
  trace :: "call list"
  events :: "(nat \<times> VfsEvent_t) list"

definition backend_call :: "backend \<Rightarrow> call \<Rightarrow> vfs_state \<Rightarrow> int \<times> vfs_state" where
  "backend_call be c st = (rc be (trace st) c, st\<lparr>trace := trace st @ [c]\<rparr>)"

definition set_index :: "nat \<Rightarrow> int \<Rightarrow> vfs_state \<Rightarrow> vfs_state" where
  "set_index i v st = st\<lparr>vFileSystem := (vFileSystem st)[i := (vFileSystem st ! i)\<lparr>index := v\<rparr>]\<rparr>"

definition set_fs :: "nat \<Rightarrow> fs_ptr \<Rightarrow> vfs_state \<Rightarrow> vfs_state" where
  "set_fs i p st = st\<lparr>vFileSystem := (vFileSystem st)[i := (vFileSystem st ! i)\<lparr>fs := p\<rparr>]\<rparr>"

definition raise_event :: "nat \<Rightarrow> VfsEvent_t \<Rightarrow> vfs_state \<Rightarrow> vfs_state" where
  "raise_event i ev st =
     (if eventcb (vFileSystem st ! i) then st\<lparr>events := events st @ [(i, ev)]\<rparr> else st)"

text \<open>
  \<open>_ff_errno\<close> and \<open>_jes_errno\<close>: FatFs's \<open>FRESULT\<close> by its number (the source's comments
  give them).  \<open>_jes_errno\<close> takes an \<open>int16_t\<close>: the value a caller passes is converted to
  16 bits (\<open>word_of_int\<close> at the call), and the function reads it signed.
\<close>

definition ff_errno :: "int \<Rightarrow> int" where
  "ff_errno err =
     - (if err = 1 then EIO else if err = 2 then EDOOFUS else if err = 3 then EBUSY
        else if err = 4 then ENOENT else if err = 5 then ENOTDIR else if err = 6 then EINVAL
        else if err = 7 then ENOSPC else if err = 8 then EEXIST else if err = 9 then EBADF
        else if err = 10 then EROFS else if err = 11 then ENODEV else if err = 12 then ENODEV
        else if err = 13 then ENXIO else if err = 14 then EINVAL else if err = 15 then ETIMEDOUT
        else if err = 16 then ENOLCK else if err = 17 then ENOMEM else if err = 18 then EMFILE
        else if err = 19 then EINVAL else 0)"

definition jes_errno :: "16 word \<Rightarrow> int" where
  "jes_errno err =
     (if sint err \<ge> 0 then sint err
      else - (if sint err = - 108 then ENXIO else if sint err = - 110 then EINVAL
              else if sint err = - 111 then ENOSPC else if sint err = - 113 then ENOSPC
              else if sint err = - 124 then ENOENT else if sint err = - 129 then EBADF
              else if sint err = - 139 then EINVAL else if sint err = - 142 then EBADF
              else if sint err = - 143 then EBADF else if sint err = - 147 then EBUSY
              else if sint err = - 148 then EBUSY else EIO))"

text \<open>
  \<open>vfs_mount\<close>: the three \<open>case\<close> blocks of the \<open>switch\<close> (\<open>ret\<close> enters with \<open>-ENOENT\<close>),
  the \<open>switch\<close> itself and the notification that follows it.  \<open>vfs_malloc_usable_size\<close> is
  nonzero exactly for a block this layer allocated.
\<close>

definition mount_fatfs :: "backend \<Rightarrow> vfs_state \<Rightarrow> nat \<Rightarrow> bool \<Rightarrow> int \<Rightarrow> int \<times> vfs_state" where
  "mount_fatfs be st i mount ret =
     (if mount then
        (let (ret, st) =
               (if fs (vFileSystem st ! i) = Null then
                  (let (p, st) = backend_call be (Vfs_malloc i) st
                   in (- ENOMEM, set_fs i (if p \<noteq> 0 then Heap else Null) st))
                else (ret, st))
         in if fs (vFileSystem st ! i) \<noteq> Null then
              (let st = set_index i (int i + 1) st;
                   (r, st) = backend_call be
                      (FatFs (F_mount True (drive (vFileSystem st ! i)) (fixed (vFileSystem st ! i)))) st;
                   ret = ff_errno r
               in if ret \<noteq> 0 then (ret, set_index i 0 st) else (ret, st))
            else (ret, st))
      else
        (if fs (vFileSystem st ! i) \<noteq> Null then
           (let (r, st) = backend_call be (FatFs (F_mount False (drive (vFileSystem st ! i)) False)) st;
                ret = ff_errno r;
                st = set_index i 0 st
            in if fs (vFileSystem st ! i) = Heap
               then (ret, set_fs i Null (snd (backend_call be (Vfs_free i) st)))
               else (ret, st))
         else (ret, st)))"

definition mount_lfs :: "backend \<Rightarrow> vfs_state \<Rightarrow> nat \<Rightarrow> bool \<Rightarrow> int \<Rightarrow> int \<times> vfs_state" where
  "mount_lfs be st i mount ret =
     (if mount then
        (let (ret, st) =
               (if fs (vFileSystem st ! i) = Null then
                  (let (p, st) = backend_call be (Vfs_malloc i) st
                   in (- ENOMEM, set_fs i (if p \<noteq> 0 then Heap else Null) st))
                else (ret, st))
         in if fs (vFileSystem st ! i) \<noteq> Null then
              (let st = set_index i (int i + 1) st;
                   (ret, st) = backend_call be (LittleFs i Lfs_mount) st
               in if ret \<noteq> 0 then (- ENXIO, set_index i 0 st) else (ret, st))
            else (ret, st))
      else
        (if fs (vFileSystem st ! i) \<noteq> Null then
           (let (ret, st) = backend_call be (LittleFs i Lfs_unmount) st;
                st = set_index i 0 st
            in if fs (vFileSystem st ! i) = Heap
               then (ret, set_fs i Null (snd (backend_call be (Vfs_free i) st)))
               else (ret, st))
         else (ret, st)))"

definition mount_jesfs :: "backend \<Rightarrow> vfs_state \<Rightarrow> nat \<Rightarrow> bool \<Rightarrow> int \<Rightarrow> int \<times> vfs_state" where
  "mount_jesfs be st i mount ret =
     (let (r, st) = backend_call be (JesFs Fs_start) st;
          ret = jes_errno (word_of_int r)
      in if ret = 0 then (ret, set_index i (int i + 1) st) else (ret, st))"

definition mount_dispatch :: "backend \<Rightarrow> vfs_state \<Rightarrow> nat \<Rightarrow> bool \<Rightarrow> int \<times> vfs_state" where
  "mount_dispatch be st i mount =
     (case fstype (vFileSystem st ! i) of
        FS_FATFS \<Rightarrow> mount_fatfs be st i mount (- ENOENT)
      | FS_LITTLEFS \<Rightarrow> mount_lfs be st i mount (- ENOENT)
      | FS_JESFS \<Rightarrow> mount_jesfs be st i mount (- ENOENT)
      | _ \<Rightarrow> (- ENOENT, st))"

definition mount_notify :: "nat \<Rightarrow> bool \<Rightarrow> int \<Rightarrow> vfs_state \<Rightarrow> int \<times> vfs_state" where
  "mount_notify i mount ret st =
     (if ret = 0 then
        (ret, raise_event i (if index (vFileSystem st ! i) = 0 then EVT_UNMOUNT else EVT_MOUNT) st)
      else if mount then (ret, raise_event i EVT_MOUNT_FAIL st)
      else (ret, st))"

definition vfs_mount :: "backend \<Rightarrow> vfs_state \<Rightarrow> string option \<Rightarrow> bool \<Rightarrow> int \<times> vfs_state" where
  "vfs_mount be st path mount =
     (let i = vfs_find_entry (vFileSystem st) path True in
      if i < 0 then (i, st)
      else (let (ret, st) = mount_dispatch be st (nat i) mount
            in mount_notify (nat i) mount ret st))"

definition be_ok :: backend where
  "be_ok = \<lparr>rc = (\<lambda>h c. 0), stored = (\<lambda>h c. []), listing = (\<lambda>h c. [])\<rparr>"

definition st_jes :: "int \<Rightarrow> vfs_state" where
  "st_jes ix = \<lparr>vFileSystem = [mk_drive ''SPI:'' FS_JESFS ix], trace = [], events = []\<rparr>"


lemma backend_call_frame [simp]:
  "events (snd (backend_call be c st)) = events st"
  "vFileSystem (snd (backend_call be c st)) = vFileSystem st"
  "trace (snd (backend_call be c st)) = trace st @ [c]"
  "fst (backend_call be c st) = rc be (trace st) c"
  by (simp_all add: backend_call_def)

lemma set_frame [simp]:
  "events (set_index i v st) = events st"
  "events (set_fs i p st) = events st"
  "trace (set_index i v st) = trace st"
  "trace (set_fs i p st) = trace st"
  "length (vFileSystem (set_index i v st)) = length (vFileSystem st)"
  "length (vFileSystem (set_fs i p st)) = length (vFileSystem st)"
  by (simp_all add: set_index_def set_fs_def)

lemma set_index_entry [simp]:
  "i < length (vFileSystem st) \<Longrightarrow>
     vFileSystem (set_index i v st) ! i = (vFileSystem st ! i)\<lparr>index := v\<rparr>"
  by (simp add: set_index_def)

lemma set_fs_entry [simp]:
  "i < length (vFileSystem st) \<Longrightarrow>
     vFileSystem (set_fs i p st) ! i = (vFileSystem st ! i)\<lparr>fs := p\<rparr>"
  by (simp add: set_fs_def)

lemma mount_backend_events:
  "events (snd (mount_fatfs be st i m r)) = events st"
  "events (snd (mount_lfs be st i m r)) = events st"
  "events (snd (mount_jesfs be st i m r)) = events st"
  by (simp_all add: mount_fatfs_def mount_lfs_def mount_jesfs_def Let_def case_prod_beta)

lemma raise_event_events:
  "events (raise_event i ev st) = events st \<or> events (raise_event i ev st) = events st @ [(i, ev)]"
  by (simp add: raise_event_def)

lemma mount_dispatch_events: "events (snd (mount_dispatch be st i m)) = events st"
  by (cases "fstype (vFileSystem st ! i)") (simp_all add: mount_dispatch_def mount_backend_events)

lemma mount_notify_events:
  "events (snd (mount_notify i m r st)) = events st
   \<or> (\<exists>ev. events (snd (mount_notify i m r st)) = events st @ [(i, ev)])"
  by (auto simp add: mount_notify_def raise_event_def)

lemma vfs_mount_at_most_one_event:
  "events (snd (vfs_mount be st path m)) = events st
   \<or> (\<exists>i ev. events (snd (vfs_mount be st path m)) = events st @ [(i, ev)])"
proof (cases "vfs_find_entry (vFileSystem st) path True < 0")
  case True
  then show ?thesis by (simp add: vfs_mount_def Let_def)
next
  case False
  let ?i = "nat (vfs_find_entry (vFileSystem st) path True)"
  let ?rs = "mount_dispatch be st ?i m"
  have "vfs_mount be st path m = mount_notify ?i m (fst ?rs) (snd ?rs)"
    using False by (simp add: vfs_mount_def Let_def case_prod_beta)
  with mount_notify_events [of ?i m "fst ?rs" "snd ?rs"] mount_dispatch_events [of be st ?i m]
  show ?thesis by auto
qed

lemma mount_dispatch_mounted:
  assumes "i < length (vFileSystem st)" and "fst (mount_dispatch be st i True) = 0"
  shows "index (vFileSystem (snd (mount_dispatch be st i True)) ! i) = int i + 1"
  using assms
  by (cases "fstype (vFileSystem st ! i)")
     (auto simp add: mount_dispatch_def mount_fatfs_def mount_lfs_def mount_jesfs_def Let_def
        case_prod_beta ENOENT_def ENOMEM_def ENXIO_def split: if_splits)

lemma mount_dispatch_unmounted:
  assumes "i < length (vFileSystem st)"
    and "fstype (vFileSystem st ! i) = FS_FATFS \<or> fstype (vFileSystem st ! i) = FS_LITTLEFS"
    and "fst (mount_dispatch be st i False) = 0"
  shows "index (vFileSystem (snd (mount_dispatch be st i False)) ! i) = 0"
  using assms
  by (auto simp add: mount_dispatch_def mount_fatfs_def mount_lfs_def Let_def
        case_prod_beta ENOENT_def split: if_splits)

lemma mount_dispatch_failed:
  assumes "i < length (vFileSystem st)"
    and "fstype (vFileSystem st ! i) = FS_FATFS \<or> fstype (vFileSystem st ! i) = FS_LITTLEFS"
    and "fs (vFileSystem st ! i) \<noteq> Null"
    and "fst (mount_dispatch be st i True) \<noteq> 0"
  shows "index (vFileSystem (snd (mount_dispatch be st i True)) ! i) = 0"
  using assms
  by (auto simp add: mount_dispatch_def mount_fatfs_def mount_lfs_def Let_def
        case_prod_beta split: if_splits)

lemma mount_dispatch_no_filesystem:
  assumes "i < length (vFileSystem st)" and "fs (vFileSystem st ! i) \<noteq> Null"
  shows "fstype (vFileSystem st ! i) = FS_FATFS \<Longrightarrow>
           rc be (trace st) (FatFs (F_mount True (drive (vFileSystem st ! i)) (fixed (vFileSystem st ! i)))) = 13
           \<Longrightarrow> fst (mount_dispatch be st i True) = - ENXIO"
    and "fstype (vFileSystem st ! i) = FS_LITTLEFS \<Longrightarrow> rc be (trace st) (LittleFs i Lfs_mount) \<noteq> 0
           \<Longrightarrow> fst (mount_dispatch be st i True) = - ENXIO"
    and "fstype (vFileSystem st ! i) = FS_JESFS \<Longrightarrow> rc be (trace st) (JesFs Fs_start) = - 108
           \<Longrightarrow> fst (mount_dispatch be st i True) = - ENXIO"
  using assms
  by (auto simp add: mount_dispatch_def mount_fatfs_def mount_lfs_def mount_jesfs_def Let_def
        case_prod_beta ff_errno_def jes_errno_def ENXIO_def split: if_splits)

lemma mount_dispatch_eventcb:
  assumes "i < length (vFileSystem st)"
  shows "eventcb (vFileSystem (snd (mount_dispatch be st i m)) ! i) = eventcb (vFileSystem st ! i)"
  using assms
  by (cases "fstype (vFileSystem st ! i)")
     (auto simp add: mount_dispatch_def mount_fatfs_def mount_lfs_def mount_jesfs_def Let_def
        case_prod_beta split: if_splits)

lemma vfs_mount_resolved:
  assumes "vfs_find_entry (vFileSystem st) path True = int i"
  shows "vfs_mount be st path m =
           mount_notify i m (fst (mount_dispatch be st i m)) (snd (mount_dispatch be st i m))"
  using assms by (simp add: vfs_mount_def Let_def case_prod_beta)

lemma mount_lifecycle:
  assumes r: "vfs_find_entry (vFileSystem st) path True = int i"
    and i: "i < length (vFileSystem st)"
    and cb: "eventcb (vFileSystem st ! i)"
  shows "fst (vfs_mount be st path True) = 0 \<Longrightarrow>
           events (snd (vfs_mount be st path True)) = events st @ [(i, EVT_MOUNT)]
           \<and> index (vFileSystem (snd (vfs_mount be st path True)) ! i) = int i + 1"
    and "fst (vfs_mount be st path True) \<noteq> 0 \<Longrightarrow>
           events (snd (vfs_mount be st path True)) = events st @ [(i, EVT_MOUNT_FAIL)]"
    and "fst (vfs_mount be st path True) \<noteq> 0 \<Longrightarrow>
           fstype (vFileSystem st ! i) = FS_FATFS \<or> fstype (vFileSystem st ! i) = FS_LITTLEFS \<Longrightarrow>
           fs (vFileSystem st ! i) \<noteq> Null \<Longrightarrow>
           index (vFileSystem (snd (vfs_mount be st path True)) ! i) = 0"
    and "fst (vfs_mount be st path False) = 0 \<Longrightarrow>
           fstype (vFileSystem st ! i) = FS_FATFS \<or> fstype (vFileSystem st ! i) = FS_LITTLEFS \<Longrightarrow>
           events (snd (vfs_mount be st path False)) = events st @ [(i, EVT_UNMOUNT)]
           \<and> index (vFileSystem (snd (vfs_mount be st path False)) ! i) = 0"
    and "fst (vfs_mount be st path False) \<noteq> 0 \<Longrightarrow>
           events (snd (vfs_mount be st path False)) = events st"
proof -
  note d = vfs_mount_resolved [OF r] mount_notify_def raise_event_def
    mount_dispatch_eventcb [OF i] mount_dispatch_events cb
  show "fst (vfs_mount be st path True) = 0 \<Longrightarrow>
           events (snd (vfs_mount be st path True)) = events st @ [(i, EVT_MOUNT)]
           \<and> index (vFileSystem (snd (vfs_mount be st path True)) ! i) = int i + 1"
    using mount_dispatch_mounted [OF i, of be] by (simp add: d split: if_splits)
  show "fst (vfs_mount be st path True) \<noteq> 0 \<Longrightarrow>
           events (snd (vfs_mount be st path True)) = events st @ [(i, EVT_MOUNT_FAIL)]"
    by (simp add: d split: if_splits)
  show "fst (vfs_mount be st path True) \<noteq> 0 \<Longrightarrow>
           fstype (vFileSystem st ! i) = FS_FATFS \<or> fstype (vFileSystem st ! i) = FS_LITTLEFS \<Longrightarrow>
           fs (vFileSystem st ! i) \<noteq> Null \<Longrightarrow>
           index (vFileSystem (snd (vfs_mount be st path True)) ! i) = 0"
    using mount_dispatch_failed [OF i, of be] by (simp add: d split: if_splits)
  show "fst (vfs_mount be st path False) = 0 \<Longrightarrow>
           fstype (vFileSystem st ! i) = FS_FATFS \<or> fstype (vFileSystem st ! i) = FS_LITTLEFS \<Longrightarrow>
           events (snd (vfs_mount be st path False)) = events st @ [(i, EVT_UNMOUNT)]
           \<and> index (vFileSystem (snd (vfs_mount be st path False)) ! i) = 0"
    using mount_dispatch_unmounted [OF i, of be] by (simp add: d split: if_splits)
  show "fst (vfs_mount be st path False) \<noteq> 0 \<Longrightarrow>
           events (snd (vfs_mount be st path False)) = events st"
    by (simp add: d split: if_splits)
qed

text \<open>
  Claim C5 (mount lifecycle events), at the JesFs backend.  The claim holds for FatFs and
  littlefs entries (\<open>mount_lifecycle\<close>) and every call raises at most one event
  (\<open>vfs_mount_at_most_one_event\<close>).  The \<open>FS_JESFS\<close> case ignores the \<open>mount\<close> argument:
  a call \<open>vfs_mount("SPI:", false)\<close> on the mounted drive of the configuration template
  starts the filesystem again, returns 0, leaves \<open>index\<close> at 1 and raises \<open>EVT_MOUNT\<close>,
  where the claim has \<open>EVT_UNMOUNT\<close> and \<open>index\<close> 0.
\<close>

theorem C5_jesfs_unmount_raises_mount:
  "vfs_mount be_ok (st_jes 1) (Some ''SPI:'') False =
     (0, \<lparr>vFileSystem = [mk_drive ''SPI:'' FS_JESFS 1], trace = [JesFs Fs_start],
          events = [(0, EVT_MOUNT)]\<rparr>)"
  by code_simp




section \<open>File handles: open and close (vfs.c)\<close>

text \<open>
  \<open>strncmp\<close> of the C library, and the open flags of vfs.h.  The flag words the backends
  receive are lists of the flags or-ed together, in the order the source adds them; their
  numbers are the backends' own.
\<close>

fun strncmp :: "string \<Rightarrow> string \<Rightarrow> nat \<Rightarrow> int" where
  "strncmp s1 s2 0 = 0"
| "strncmp s1 s2 (Suc n) =
     (let c1 = peek s1; c2 = peek s2 in
      if c1 \<noteq> c2 then int (of_char c1) - int (of_char c2)
      else if c1 = NUL then 0
      else strncmp (tl s1) (tl s2) n)"

definition VFS_RDONLY :: int where "VFS_RDONLY = 0x01"
definition VFS_WRONLY :: int where "VFS_WRONLY = 0x02"
definition VFS_CREAT :: int where "VFS_CREAT = 0x10"
definition VFS_EXCL :: int where "VFS_EXCL = 0x20"
definition VFS_TRUNC :: int where "VFS_TRUNC = 0x40"
definition VFS_APPEND :: int where "VFS_APPEND = 0x80"

definition has_flag :: "int \<Rightarrow> int \<Rightarrow> bool" where
  "has_flag flags f = (flags AND f \<noteq> 0)"

definition ff_fopen_flag :: "int \<Rightarrow> ff_flag list" where
  "ff_fopen_flag flags =
     (if has_flag flags VFS_RDONLY then [FA_READ] else [])
     @ (if has_flag flags VFS_WRONLY then
          [FA_WRITE]
          @ (if has_flag flags VFS_TRUNC then [FA_CREATE_ALWAYS] else [])
          @ (if has_flag flags VFS_EXCL then [FA_CREATE_NEW] else [])
          @ (if has_flag flags VFS_CREAT then [FA_OPEN_ALWAYS] else [])
        else [])"

definition lfs_fopen_flag :: "int \<Rightarrow> lfs_flag list" where
  "lfs_fopen_flag flags =
     (if has_flag flags VFS_RDONLY then [LFS_O_RDONLY] else [])
     @ (if has_flag flags VFS_WRONLY then [LFS_O_WRONLY] else [])
     @ (if has_flag flags VFS_CREAT then [LFS_O_CREAT] else [])
     @ (if has_flag flags VFS_EXCL then [LFS_O_EXCL] else [])
     @ (if has_flag flags VFS_TRUNC then [LFS_O_TRUNC] else [])"

definition jes_open_flag :: "int \<Rightarrow> jes_flag list" where
  "jes_open_flag flags =
     (if has_flag flags VFS_RDONLY then [SF_OPEN_READ] else [])
     @ (if has_flag flags VFS_WRONLY then
          [SF_OPEN_WRITE, SF_OPEN_CRC]
          @ (if has_flag flags VFS_TRUNC then [SF_OPEN_CREATE] else [])
        else [])"

text \<open>
  \<open>_lfs_fix_path\<close> and \<open>_jes_fix_path\<close> return a pointer into the path; the first also
  replaces every backslash of the caller's string by a slash.  \<open>str_at path n\<close> is the
  string at \<open>&path[n]\<close>.  A string value stands for the character array the pointer refers
  to, its last character followed by a terminator: for \<open>n\<close> up to the length of the array
  the pointer is inside it, and further on it is outside the array, which is \<open>None\<close>.  (A
  buffer that was zeroed before a shorter string was copied into it is the string followed by
  the remaining \<open>NUL\<close> characters.)
  \<open>_jes_truncate_path\<close> shortens a name longer than JesFs's \<open>FNAMELEN\<close> (21 in jesfs.h) in
  place to its head, \<open>~1\<close> and its extension.  The offset \<open>FNAMELEN - 2 - extlen\<close> is an
  \<open>int\<close>: with an extension of 20 characters or more it is negative and the \<open>memmove\<close>
  writes in front of the name, which is \<open>None\<close>.
\<close>

definition str_at :: "string \<Rightarrow> nat \<Rightarrow> string option" where
  "str_at path n = (if n \<le> length path then Some (drop n path) else None)"

definition lfs_fix_path :: "FileSystem_t \<Rightarrow> string \<Rightarrow> string option" where
  "lfs_fix_path pVfs path =
     (let path = map (\<lambda>c. if c = CHR 0x5C then CHR ''/'' else c) (takeWhile (\<lambda>c. c \<noteq> NUL) path)
                 @ dropWhile (\<lambda>c. c \<noteq> NUL) path
      in if strncmp path (drive pVfs) (namelen pVfs) = 0 then str_at path (namelen pVfs + 1)
         else if peek path = CHR ''/'' then str_at path (namelen pVfs + 1)
         else Some path)"

definition jes_fix_path :: "FileSystem_t \<Rightarrow> string \<Rightarrow> string option" where
  "jes_fix_path pVfs path =
     (if strncmp path (drive pVfs) (namelen pVfs) = 0 then str_at path (namelen pVfs + 1)
      else if peek path = CHR 0x5C \<or> peek path = CHR ''/'' then str_at path (namelen pVfs + 1)
      else Some path)"

definition FNAMELEN :: nat where "FNAMELEN = 21"

definition strrchr_dot :: "string \<Rightarrow> string option" where
  "strrchr_dot p =
     (let s = takeWhile (\<lambda>c. c \<noteq> NUL) p in
      if CHR ''.'' \<in> set s
      then Some (CHR ''.'' # rev (takeWhile (\<lambda>c. c \<noteq> CHR ''.'') (rev s)))
      else None)"

definition jes_truncate_path :: "string \<Rightarrow> string option" where
  "jes_truncate_path path =
     (if strlen path > FNAMELEN then
        (let ext = (case strrchr_dot path of None \<Rightarrow> [] | Some e \<Rightarrow> e);
             extlen = length ext
         in if int FNAMELEN - 2 - int extlen < 0 then None
            else Some (take (FNAMELEN - 2 - extlen) path @ ''~1'' @ ext))
      else Some path)"

definition LFS_ERR_NOATTR :: int where "LFS_ERR_NOATTR = - 61"

text \<open>
  \<open>VfsFile_t\<close>: \<open>filesys\<close> is the null pointer, \<open>&vRootSystem[0]\<close> or \<open>&vFileSystem[i]\<close>.  The
  backend's part of the handle is the backend's; the layer itself reads and writes the
  cached modification time (littlefs) and JesFs's \<open>file_pos\<close> and \<open>file_len\<close>, which
  \<open>fs_open\<close> fills in.  \<open>stream\<close> stands for the backend's file object (\<open>FIL\<close>, \<open>lfs_file_t\<close>,
  \<open>FS_DESC\<close>): what its reads have yet to deliver, taken from the backend's \<open>listing\<close> when
  the file is opened.  The build is the one without \<open>MTP_EVENTS\<close>.
\<close>

datatype fsref = NullFs | RootFs | Drive nat

record VfsFile_t =
  filesys :: fsref
  modified :: int
  file_pos :: u32
  file_len :: u32
  stream :: "(int \<times> string) list"

definition open_fatfs ::
  "backend \<Rightarrow> vfs_state \<Rightarrow> VfsFile_t \<Rightarrow> string \<Rightarrow> int \<Rightarrow> int \<times> VfsFile_t \<times> vfs_state" where
  "open_fatfs be st file path flags =
     (let c = FatFs (F_open path (ff_fopen_flag flags));
          file = file\<lparr>stream := listing be (trace st) c\<rparr>;
          (r, st) = backend_call be c st;
          ret = ff_errno r
      in if ret = 0 \<and> has_flag flags VFS_APPEND then
           (let (sz, st) = backend_call be (FatFs F_size) st;
                (r, st) = backend_call be (FatFs (F_lseek (word_of_int sz))) st
            in (ret, file, st))
         else (ret, file, st))"

definition open_lfs ::
  "backend \<Rightarrow> vfs_state \<Rightarrow> VfsFile_t \<Rightarrow> nat \<Rightarrow> string \<Rightarrow> int \<Rightarrow>
     (int \<times> VfsFile_t \<times> vfs_state) option" where
  "open_lfs be st file i path flags =
     (let (t, st) = backend_call be Time st;
          file = file\<lparr>modified := t\<rparr>
      in case lfs_fix_path (vFileSystem st ! i) path of
           None \<Rightarrow> None
         | Some path \<Rightarrow>
             (let c = LittleFs i (Lfs_file_opencfg path (lfs_fopen_flag flags));
                  file = file\<lparr>stream := listing be (trace st) c\<rparr>;
                  (ret, st) = backend_call be c st
              in if ret = 0 then
                   (let (a, st) = backend_call be (LittleFs i (Lfs_getattr path LFS_ATTR_CREATE)) st
                    in if a = LFS_ERR_NOATTR then
                         (let (t, st) = backend_call be Time st;
                              (r, st) = backend_call be
                                          (LittleFs i (Lfs_setattr path LFS_ATTR_CREATE)) st
                          in Some (ret, file, st))
                       else Some (ret, file, st))
                 else Some (ret, file, st)))"

definition open_jesfs ::
  "backend \<Rightarrow> vfs_state \<Rightarrow> VfsFile_t \<Rightarrow> nat \<Rightarrow> string \<Rightarrow> int \<Rightarrow>
     (int \<times> VfsFile_t \<times> vfs_state) option" where
  "open_jesfs be st file i path flags =
     (case jes_fix_path (vFileSystem st ! i) path of
        None \<Rightarrow> None
      | Some path \<Rightarrow>
          (case jes_truncate_path path of
             None \<Rightarrow> None
           | Some path \<Rightarrow>
               (let c = JesFs (Fs_open path (jes_open_flag flags));
                    file = file\<lparr>stream := listing be (trace st) c\<rparr>;
                    (r, st) = backend_call be c st;
                    (len, st) = backend_call be (JesFs Jes_file_len) st;
                    (pos, st) = backend_call be (JesFs Jes_file_pos) st;
                    file = file\<lparr>file_len := word_of_int len, file_pos := word_of_int pos\<rparr>;
                    ret = jes_errno (word_of_int r)
                in if has_flag flags VFS_APPEND then Some (ret, file\<lparr>file_pos := file_len file\<rparr>, st)
                   else Some (ret, file, st))))"

definition open_dispatch ::
  "backend \<Rightarrow> vfs_state \<Rightarrow> VfsFile_t \<Rightarrow> nat \<Rightarrow> string \<Rightarrow> int \<Rightarrow>
     (int \<times> VfsFile_t \<times> vfs_state) option" where
  "open_dispatch be st file i path flags =
     (case fstype (vFileSystem st ! i) of
        FS_FATFS \<Rightarrow> Some (open_fatfs be st file path flags)
      | FS_LITTLEFS \<Rightarrow> open_lfs be st file i path flags
      | FS_JESFS \<Rightarrow> open_jesfs be st file i path flags
      | _ \<Rightarrow> Some (- ENOENT, file, st))"

text \<open>
  \<open>vfs_file_open\<close>.  \<open>is_bare_root\<close> is the test "we cannot open the root entries".  Behind
  the resolver's check the path is not null.  The result is \<open>None\<close> where a path helper
  leaves the string.
\<close>

definition is_bare_root :: "FileSystem_t \<Rightarrow> string \<Rightarrow> bool" where
  "is_bare_root e path =
     (strncmp path (drive e) (namelen e) = 0
      \<and> peek (drop (namelen e) path) \<noteq> CHR 0x5C \<and> peek (drop (namelen e) path) \<noteq> CHR ''/'')"

definition vfs_file_open ::
  "backend \<Rightarrow> vfs_state \<Rightarrow> VfsFile_t \<Rightarrow> string option \<Rightarrow> int \<Rightarrow>
     (int \<times> VfsFile_t \<times> vfs_state) option" where
  "vfs_file_open be st file path flags =
     (let i = vfs_find_entry (vFileSystem st) path False in
      if i < 0 then Some (- ENOENT, file, st)
      else
        (let file = file\<lparr>filesys := Drive (nat i)\<rparr> in
         if is_bare_root (vFileSystem st ! nat i) (the path) then Some (- EBADF, file, st)
         else
           (case open_dispatch be st file (nat i) (the path) flags of
              None \<Rightarrow> None
            | Some (ret, file, st) \<Rightarrow>
                if ret < 0 then Some (ret, file\<lparr>filesys := NullFs\<rparr>, st)
                else Some (ret, file, st))))"

text \<open>
  \<open>vfs_file_close\<close> reads \<open>file->filesys->type\<close>: with a null \<open>filesys\<close> the source
  dereferences the null pointer, which is \<open>None\<close> here.
\<close>

definition vfs_file_close ::
  "backend \<Rightarrow> vfs_state \<Rightarrow> VfsFile_t \<Rightarrow> (int \<times> VfsFile_t \<times> vfs_state) option" where
  "vfs_file_close be st file =
     (case filesys file of
        NullFs \<Rightarrow> None
      | RootFs \<Rightarrow> Some (- EBADF, file\<lparr>filesys := NullFs\<rparr>, st)
      | Drive i \<Rightarrow>
          (let (ret, st) =
                 (case fstype (vFileSystem st ! i) of
                    FS_FATFS \<Rightarrow> (let (r, st) = backend_call be (FatFs F_close) st
                                 in (ff_errno r, st))
                  | FS_LITTLEFS \<Rightarrow> backend_call be (LittleFs i Lfs_file_close) st
                  | FS_JESFS \<Rightarrow> (let (r, st) = backend_call be (JesFs Fs_close) st
                                 in (jes_errno (word_of_int r), st))
                  | _ \<Rightarrow> (- EBADF, st))
           in Some (ret, file\<lparr>filesys := NullFs\<rparr>, st)))"

definition file0 :: VfsFile_t where
  "file0 = \<lparr>filesys = NullFs, modified = 0, file_pos = 0, file_len = 0, stream = []\<rparr>"

definition st_A :: vfs_state where
  "st_A = \<lparr>vFileSystem = drives_A, trace = [], events = []\<rparr>"

lemma open_not_found:
  "vfs_find_entry (vFileSystem st) path False < 0 \<Longrightarrow>
     vfs_file_open be st file path flags = Some (- ENOENT, file, st)"
  by (simp add: vfs_file_open_def)

lemma open_bare_root:
  "vfs_find_entry (vFileSystem st) path False = int i \<Longrightarrow>
   is_bare_root (vFileSystem st ! i) (the path) \<Longrightarrow>
     vfs_file_open be st file path flags = Some (- EBADF, file\<lparr>filesys := Drive i\<rparr>, st)"
  by (simp add: vfs_file_open_def)

lemma open_detaches_after_dispatch:
  assumes "vfs_find_entry (vFileSystem st) path False = int i"
    and "\<not> is_bare_root (vFileSystem st ! i) (the path)"
    and "vfs_file_open be st file path flags = Some (ret, file', st')"
    and "ret < 0"
  shows "filesys file' = NullFs"
  using assms
  by (auto simp add: vfs_file_open_def Let_def split: if_splits option.splits)

lemma open_dispatch_keeps_reference:
  "open_dispatch be st file i path flags = Some (ret, file', st') \<Longrightarrow> filesys file' = filesys file"
  by (cases "fstype (vFileSystem st ! i)")
     (auto simp add: open_dispatch_def open_fatfs_def open_lfs_def open_jesfs_def Let_def
        case_prod_beta split: option.splits if_splits)

lemma open_success_attaches:
  assumes "vfs_find_entry (vFileSystem st) path False = int i"
    and "vfs_file_open be st file path flags = Some (ret, file', st')"
    and "0 \<le> ret"
  shows "filesys file' = Drive i"
  using assms
  by (auto simp add: vfs_file_open_def Let_def EBADF_def
        split: if_splits option.splits dest: open_dispatch_keeps_reference)

lemma close_detaches:
  "vfs_file_close be st file = Some (r, file', st') \<Longrightarrow> filesys file' = NullFs"
  by (auto simp add: vfs_file_close_def Let_def case_prod_beta split: fsref.splits)

lemma close_defined:
  "filesys file \<noteq> NullFs \<Longrightarrow> \<exists>r file' st'. vfs_file_close be st file = Some (r, file', st')"
  by (auto simp add: vfs_file_close_def Let_def case_prod_beta split: fsref.splits)

text \<open>
  Claim C6 (handle detachment), at the bare mount root.  \<open>vfs_file_close\<close> detaches the
  handle whatever the backend answers (\<open>close_detaches\<close>), and an open that fails in the
  backend detaches it too (\<open>open_detaches_after_dispatch\<close>).  The two early returns of
  \<open>vfs_file_open\<close> do not: the resolver's failure leaves \<open>filesys\<close> as the caller had it
  (\<open>open_not_found\<close>), and the rejection of a bare mount root returns \<open>-EBADF\<close> after
  \<open>filesys\<close> was set to the entry.  With the mounted drive \<open>A:\<close>, opening \<open>"A:"\<close> returns
  \<open>-EBADF\<close> and leaves \<open>filesys = &vFileSystem[0]\<close>, whatever the backend and the flags.
\<close>

theorem C6_bare_root_open_keeps_reference:
  "vfs_file_open be st_A file0 (Some ''A:'') flags
     = Some (- EBADF, file0\<lparr>filesys := Drive 0\<rparr>, st_A)"
proof -
  have a: "vfs_find_entry (vFileSystem st_A) (Some ''A:'') False = int 0"
    by (simp add: st_A_def) code_simp
  have b: "is_bare_root (vFileSystem st_A ! 0) (the (Some ''A:''))"
    by (simp add: st_A_def) code_simp
  from open_bare_root [OF a b] show ?thesis .
qed


section \<open>File handles: seek (vfs.c)\<close>

text \<open>
  \<open>vfs_file_seek\<close>.  \<open>size_t\<close>, FatFs's \<open>DWORD\<close> and JesFs's positions are 32 bits wide, so
  \<open>start + offset\<close> wraps; the function's \<open>int ret\<close> is converted to \<open>size_t\<close> on return.
  \<open>f_tell\<close> and \<open>f_size\<close> read the position and the size FatFs keeps in the handle.  The
  second \<open>f_tell\<close> is behind \<open>&&\<close>: it is read only when \<open>f_lseek\<close> succeeded.
\<close>

definition SEEK_SET :: int where "SEEK_SET = 0"
definition SEEK_CUR :: int where "SEEK_CUR = 1"
definition SEEK_END :: int where "SEEK_END = 2"

definition seek_fatfs :: "backend \<Rightarrow> vfs_state \<Rightarrow> u32 \<Rightarrow> int \<Rightarrow> int \<times> vfs_state" where
  "seek_fatfs be st offset whence =
     (if whence \<noteq> SEEK_SET \<and> whence \<noteq> SEEK_CUR \<and> whence \<noteq> SEEK_END then (- EINVAL, st)
      else
        (let (start, st) =
               (if whence = SEEK_SET then (0, st)
                else if whence = SEEK_CUR then
                  (let (p, st) = backend_call be (FatFs F_tell) st in (word_of_int p, st))
                else
                  (let (s, st) = backend_call be (FatFs F_size) st in (word_of_int s + 1, st)));
             (r, st) = backend_call be (FatFs (F_lseek (start + offset))) st;
             ret = ff_errno r
         in if ret = 0 then
              (let (p, st) = backend_call be (FatFs F_tell) st
               in if (word_of_int p :: u32) \<noteq> start + offset then (- ENOSPC, st) else (ret, st))
            else (ret, st)))"

definition seek_jesfs :: "VfsFile_t \<Rightarrow> u32 \<Rightarrow> int \<Rightarrow> int \<times> VfsFile_t" where
  "seek_jesfs file offset whence =
     (if whence \<noteq> SEEK_SET \<and> whence \<noteq> SEEK_CUR \<and> whence \<noteq> SEEK_END then (- EINVAL, file)
      else
        (let start = (if whence = SEEK_SET then 0
                      else if whence = SEEK_CUR then file_pos file
                      else file_len file + 1)
         in (0, file\<lparr>file_pos := start + offset\<rparr>)))"

definition vfs_file_seek ::
  "backend \<Rightarrow> vfs_state \<Rightarrow> VfsFile_t \<Rightarrow> u32 \<Rightarrow> int \<Rightarrow> (u32 \<times> VfsFile_t \<times> vfs_state) option" where
  "vfs_file_seek be st file offset whence =
     (case filesys file of
        NullFs \<Rightarrow> None
      | RootFs \<Rightarrow> Some (word_of_int (- EBADF), file, st)
      | Drive i \<Rightarrow>
          (case fstype (vFileSystem st ! i) of
             FS_FATFS \<Rightarrow> (let (ret, st) = seek_fatfs be st offset whence
                          in Some (word_of_int ret, file, st))
           | FS_LITTLEFS \<Rightarrow>
               (let (ret, st) = backend_call be (LittleFs i (Lfs_file_seek offset whence)) st
                in Some (word_of_int ret, file, st))
           | FS_JESFS \<Rightarrow> (let (ret, file) = seek_jesfs file offset whence
                          in Some (word_of_int ret, file, st))
           | _ \<Rightarrow> Some (word_of_int (- EBADF), file, st)))"

text \<open>
  Sample data: a table with the one mounted drive \<open>A:\<close> of a given type, a handle attached
  to an entry, a backend that answers every call with the same value, a FatFs whose
  position stays where it is while every other call succeeds, and a FatFs that reports a
  given file size and position.
\<close>

definition st_of :: "Fs_t \<Rightarrow> vfs_state" where
  "st_of t = \<lparr>vFileSystem = [mk_drive ''A:'' t 1], trace = [], events = []\<rparr>"

definition file_on :: "nat \<Rightarrow> VfsFile_t" where
  "file_on i = \<lparr>filesys = Drive i, modified = 0, file_pos = 0, file_len = 0, stream = []\<rparr>"

definition be_const :: "int \<Rightarrow> backend" where
  "be_const v = \<lparr>rc = (\<lambda>h c. v), stored = (\<lambda>h c. []), listing = (\<lambda>h c. [])\<rparr>"

definition be_pos :: "int \<Rightarrow> backend" where
  "be_pos p = \<lparr>rc = (\<lambda>h c. if c = FatFs F_tell then p else 0), stored = (\<lambda>h c. []),
              listing = (\<lambda>h c. [])\<rparr>"

definition be_fat :: "int \<Rightarrow> int \<Rightarrow> backend" where
  "be_fat sz pos =
     \<lparr>rc = (\<lambda>h c. if c = FatFs F_size then sz else if c = FatFs F_tell then pos else 0),
      stored = (\<lambda>h c. []), listing = (\<lambda>h c. [])\<rparr>"

lemma seek_whence_distinct [simp]:
  "SEEK_SET \<noteq> SEEK_CUR" "SEEK_CUR \<noteq> SEEK_SET" "SEEK_SET \<noteq> SEEK_END"
  "SEEK_END \<noteq> SEEK_SET" "SEEK_CUR \<noteq> SEEK_END" "SEEK_END \<noteq> SEEK_CUR"
  by (simp_all add: SEEK_SET_def SEEK_CUR_def SEEK_END_def)

lemma seek_defined:
  "filesys file \<noteq> NullFs \<Longrightarrow> \<exists>r. vfs_file_seek be st file offset whence = Some r"
  by (auto simp add: vfs_file_seek_def Let_def case_prod_beta split: fsref.splits Fs_t.splits)

lemma seek_fatfs_invalid:
  "whence \<noteq> SEEK_SET \<Longrightarrow> whence \<noteq> SEEK_CUR \<Longrightarrow> whence \<noteq> SEEK_END \<Longrightarrow>
     seek_fatfs be st offset whence = (- EINVAL, st)"
  by (simp add: seek_fatfs_def)

lemma seek_fatfs_set:
  "seek_fatfs be st offset SEEK_SET =
     (let c = FatFs (F_lseek offset);
          ret = ff_errno (rc be (trace st) c);
          pos = (word_of_int (rc be (trace st @ [c]) (FatFs F_tell)) :: u32)
      in if ret \<noteq> 0 then (ret, st\<lparr>trace := trace st @ [c]\<rparr>)
         else if pos = offset then (0, st\<lparr>trace := trace st @ [c, FatFs F_tell]\<rparr>)
         else (- ENOSPC, st\<lparr>trace := trace st @ [c, FatFs F_tell]\<rparr>))"
  by (simp add: seek_fatfs_def backend_call_def Let_def SEEK_SET_def SEEK_CUR_def SEEK_END_def)

lemma seek_fatfs_cur:
  "seek_fatfs be st offset SEEK_CUR =
     (let target = word_of_int (rc be (trace st) (FatFs F_tell)) + offset;
          c = FatFs (F_lseek target);
          h = trace st @ [FatFs F_tell];
          ret = ff_errno (rc be h c);
          pos = (word_of_int (rc be (h @ [c]) (FatFs F_tell)) :: u32)
      in if ret \<noteq> 0 then (ret, st\<lparr>trace := h @ [c]\<rparr>)
         else if pos = target then (0, st\<lparr>trace := h @ [c, FatFs F_tell]\<rparr>)
         else (- ENOSPC, st\<lparr>trace := h @ [c, FatFs F_tell]\<rparr>))"
  by (simp add: seek_fatfs_def backend_call_def Let_def SEEK_SET_def SEEK_CUR_def SEEK_END_def)

lemma seek_fatfs_end:
  "seek_fatfs be st offset SEEK_END =
     (let target = word_of_int (rc be (trace st) (FatFs F_size)) + 1 + offset;
          c = FatFs (F_lseek target);
          h = trace st @ [FatFs F_size];
          ret = ff_errno (rc be h c);
          pos = (word_of_int (rc be (h @ [c]) (FatFs F_tell)) :: u32)
      in if ret \<noteq> 0 then (ret, st\<lparr>trace := h @ [c]\<rparr>)
         else if pos = target then (0, st\<lparr>trace := h @ [c, FatFs F_tell]\<rparr>)
         else (- ENOSPC, st\<lparr>trace := h @ [c, FatFs F_tell]\<rparr>))"
  by (simp add: seek_fatfs_def backend_call_def Let_def SEEK_SET_def SEEK_CUR_def SEEK_END_def)

text \<open>
  What \<open>vfs_file_seek\<close> does on a handle attached to an entry of the table.  On FatFs a
  \<open>whence\<close> other than the three yields \<open>-EINVAL\<close> with no backend call; otherwise the start
  is zero, the position \<open>f_tell\<close> reads, or the size \<open>f_size\<close> reads plus one, \<open>f_lseek\<close> is
  called with the start plus the offset, its error is returned translated, and on its
  success the position is read again: the result is 0 when it is the target and \<open>-ENOSPC\<close>
  when it is not.  On littlefs the offset and \<open>whence\<close> go to \<open>lfs_file_seek\<close> as they are and
  its result is returned as it is.  On JesFs no backend is called: \<open>file_pos\<close> is set to the
  offset plus zero, the stored position, or the stored length plus one, and the result is
  0; a \<open>whence\<close> other than the three yields \<open>-EINVAL\<close> and leaves the handle as it was.
\<close>

lemma seek_per_backend:
  assumes "filesys file = Drive i"
  shows
    "(fstype (vFileSystem st ! i) = FS_FATFS \<and> whence \<notin> {SEEK_SET, SEEK_CUR, SEEK_END} \<longrightarrow>
        vfs_file_seek be st file offset whence = Some (word_of_int (- EINVAL), file, st))
   \<and> (fstype (vFileSystem st ! i) = FS_FATFS \<and> whence \<in> {SEEK_SET, SEEK_CUR, SEEK_END} \<longrightarrow>
        (let pre = (if whence = SEEK_CUR then [FatFs F_tell]
                    else if whence = SEEK_END then [FatFs F_size] else []);
             start = (if whence = SEEK_CUR then word_of_int (rc be (trace st) (FatFs F_tell))
                      else if whence = SEEK_END
                      then word_of_int (rc be (trace st) (FatFs F_size)) + 1
                      else 0);
             target = start + offset;
             c = FatFs (F_lseek target);
             h = trace st @ pre;
             ret = ff_errno (rc be h c);
             pos = (word_of_int (rc be (h @ [c]) (FatFs F_tell)) :: u32)
         in vfs_file_seek be st file offset whence =
              (if ret \<noteq> 0 then Some (word_of_int ret, file, st\<lparr>trace := h @ [c]\<rparr>)
               else if pos = target then Some (0, file, st\<lparr>trace := h @ [c, FatFs F_tell]\<rparr>)
               else Some (word_of_int (- ENOSPC), file, st\<lparr>trace := h @ [c, FatFs F_tell]\<rparr>))))
   \<and> (fstype (vFileSystem st ! i) = FS_LITTLEFS \<longrightarrow>
        vfs_file_seek be st file offset whence =
          Some (word_of_int (rc be (trace st) (LittleFs i (Lfs_file_seek offset whence))), file,
                st\<lparr>trace := trace st @ [LittleFs i (Lfs_file_seek offset whence)]\<rparr>))
   \<and> (fstype (vFileSystem st ! i) = FS_JESFS \<and> whence \<notin> {SEEK_SET, SEEK_CUR, SEEK_END} \<longrightarrow>
        vfs_file_seek be st file offset whence = Some (word_of_int (- EINVAL), file, st))
   \<and> (fstype (vFileSystem st ! i) = FS_JESFS \<and> whence \<in> {SEEK_SET, SEEK_CUR, SEEK_END} \<longrightarrow>
        vfs_file_seek be st file offset whence =
          Some (0, file\<lparr>file_pos := (if whence = SEEK_CUR then file_pos file
                                       else if whence = SEEK_END then file_len file + 1
                                       else 0) + offset\<rparr>,
                st))"
proof (intro conjI impI)
  assume "fstype (vFileSystem st ! i) = FS_FATFS \<and> whence \<notin> {SEEK_SET, SEEK_CUR, SEEK_END}"
  with assms show "vfs_file_seek be st file offset whence = Some (word_of_int (- EINVAL), file, st)"
    by (simp add: vfs_file_seek_def seek_fatfs_invalid)
next
  assume a: "fstype (vFileSystem st ! i) = FS_FATFS \<and> whence \<in> {SEEK_SET, SEEK_CUR, SEEK_END}"
  then consider "whence = SEEK_SET" | "whence = SEEK_CUR" | "whence = SEEK_END" by auto
  then show "(let pre = (if whence = SEEK_CUR then [FatFs F_tell]
                    else if whence = SEEK_END then [FatFs F_size] else []);
             start = (if whence = SEEK_CUR then word_of_int (rc be (trace st) (FatFs F_tell))
                      else if whence = SEEK_END
                      then word_of_int (rc be (trace st) (FatFs F_size)) + 1
                      else 0);
             target = start + offset;
             c = FatFs (F_lseek target);
             h = trace st @ pre;
             ret = ff_errno (rc be h c);
             pos = (word_of_int (rc be (h @ [c]) (FatFs F_tell)) :: u32)
         in vfs_file_seek be st file offset whence =
              (if ret \<noteq> 0 then Some (word_of_int ret, file, st\<lparr>trace := h @ [c]\<rparr>)
               else if pos = target then Some (0, file, st\<lparr>trace := h @ [c, FatFs F_tell]\<rparr>)
               else Some (word_of_int (- ENOSPC), file, st\<lparr>trace := h @ [c, FatFs F_tell]\<rparr>)))"
  proof cases
    case 1
    with assms a show ?thesis
      by (simp add: vfs_file_seek_def seek_fatfs_set Let_def)
  next
    case 2
    with assms a show ?thesis
      by (simp add: vfs_file_seek_def seek_fatfs_cur Let_def)
  next
    case 3
    with assms a show ?thesis
      by (simp add: vfs_file_seek_def seek_fatfs_end Let_def)
  qed
next
  assume "fstype (vFileSystem st ! i) = FS_LITTLEFS"
  with assms show "vfs_file_seek be st file offset whence =
          Some (word_of_int (rc be (trace st) (LittleFs i (Lfs_file_seek offset whence))), file,
                st\<lparr>trace := trace st @ [LittleFs i (Lfs_file_seek offset whence)]\<rparr>)"
    by (simp add: vfs_file_seek_def backend_call_def)
next
  assume "fstype (vFileSystem st ! i) = FS_JESFS \<and> whence \<notin> {SEEK_SET, SEEK_CUR, SEEK_END}"
  with assms show "vfs_file_seek be st file offset whence = Some (word_of_int (- EINVAL), file, st)"
    by (simp add: vfs_file_seek_def seek_jesfs_def)
next
  assume "fstype (vFileSystem st ! i) = FS_JESFS \<and> whence \<in> {SEEK_SET, SEEK_CUR, SEEK_END}"
  with assms show "vfs_file_seek be st file offset whence =
          Some (0, file\<lparr>file_pos := (if whence = SEEK_CUR then file_pos file
                                       else if whence = SEEK_END then file_len file + 1
                                       else 0) + offset\<rparr>,
                st)"
    by (auto simp add: vfs_file_seek_def seek_jesfs_def Let_def)
qed

text \<open>
  On samples: a FatFs whose position stays at 4 when asked to move 6 forward (\<open>-ENOSPC\<close>),
  one that arrives at the target 10, and an invalid \<open>whence\<close>.
\<close>

lemma seek_examples:
  "vfs_file_seek (be_pos 4) (st_of FS_FATFS) (file_on 0) 6 SEEK_CUR =
         Some (word_of_int (- ENOSPC), file_on 0,
               (st_of FS_FATFS)\<lparr>trace := [FatFs F_tell, FatFs (F_lseek 10), FatFs F_tell]\<rparr>)"
  "vfs_file_seek (be_pos 10) (st_of FS_FATFS) (file_on 0) 10 SEEK_SET =
         Some (0, file_on 0,
               (st_of FS_FATFS)\<lparr>trace := [FatFs (F_lseek 10), FatFs F_tell]\<rparr>)"
  "vfs_file_seek (be_pos 10) (st_of FS_FATFS) (file_on 0) 10 7 =
         Some (word_of_int (- EINVAL), file_on 0, st_of FS_FATFS)"
  "vfs_file_seek be_ok (st_of FS_JESFS) (file_on 0) 6 SEEK_SET =
         Some (0, (file_on 0)\<lparr>file_pos := 6\<rparr>, st_of FS_JESFS)"
  by code_simp+

text \<open>
  Claim C7 (seek semantics), at \<open>SEEK_END\<close>.  For \<open>SEEK_SET\<close> and \<open>SEEK_CUR\<close> the FatFs branch
  does what the claim says (\<open>seek_per_backend\<close>).  For \<open>SEEK_END\<close> the FatFs and the JesFs
  branch start from the size plus one, so the target is the offset plus the size plus one
  and not the offset plus the size.  On a FatFs file of 10 bytes the seek to the end with
  offset 0 asks \<open>f_lseek\<close> for position 11.  Where FatFs clips the position to the size, as
  it does on a file open for reading, the position read back is 10 and the seek to the end
  of the file reports \<open>-ENOSPC\<close>; where it moves to 11, as on a file open for writing, the
  seek reports success one byte behind the end.  On a JesFs file of length 10 the position
  stored is 11.
\<close>

theorem C7_seek_end_starts_past_size:
  "vfs_file_seek (be_fat 10 10) (st_of FS_FATFS) (file_on 0) 0 SEEK_END =
     Some (word_of_int (- ENOSPC), file_on 0,
           (st_of FS_FATFS)\<lparr>trace := [FatFs F_size, FatFs (F_lseek 11), FatFs F_tell]\<rparr>)
   \<and> vfs_file_seek (be_fat 10 11) (st_of FS_FATFS) (file_on 0) 0 SEEK_END =
     Some (0, file_on 0,
           (st_of FS_FATFS)\<lparr>trace := [FatFs F_size, FatFs (F_lseek 11), FatFs F_tell]\<rparr>)
   \<and> vfs_file_seek be_ok (st_of FS_JESFS) ((file_on 0)\<lparr>file_len := 10\<rparr>) 0 SEEK_END =
     Some (0, (file_on 0)\<lparr>file_len := 10, file_pos := 11\<rparr>, st_of FS_JESFS)"
  by code_simp


section \<open>Directories and find (vfs.c)\<close>






definition FS_STAT_ACTIVE :: int where "FS_STAT_ACTIVE = 1"

definition int16 :: "int \<Rightarrow> int" where
  "int16 x = sint (word_of_int x :: 16 word)"




definition log_call :: "call \<Rightarrow> vfs_state \<Rightarrow> vfs_state" where
  "log_call c st = st\<lparr>trace := trace st @ [c]\<rparr>"






text \<open>
  The JesFs case is a \<open>do ... while (res != 0)\<close> over \<open>fs_info(&stat, dir->fno++)\<close>: an
  active entry ends it with success, the answer 0 ends it with \<open>- 1\<close>, any other answer (a
  deleted file) goes on to the next file number.  Nothing in the loop bounds the number of
  rounds, so \<open>jes_scan\<close> is a partial function: \<open>None\<close> is the loop that does not end.
\<close>

partial_function (option) jes_scan ::
  "backend \<Rightarrow> vfs_state \<Rightarrow> u16 \<Rightarrow> (string option \<times> u16 \<times> vfs_state) option" where
  "jes_scan be st fno =
     (let c = JesFs (Fs_info fno);
          fname = stored be (trace st) c;
          res = int16 (rc be (trace st) c);
          st = log_call c st
      in if res AND FS_STAT_ACTIVE \<noteq> 0 then Some (Some fname, fno + 1, st)
         else if res \<noteq> 0 then jes_scan be st (fno + 1)
         else Some (None, fno + 1, st))"

declare jes_scan.simps [code]








text \<open>
  A read changes neither the drive table nor the handle's \<open>filesys\<close> and pattern, and it
  returns 0 or \<open>- 1\<close>.
\<close>

lemma log_call_frame [simp]:
  "vFileSystem (log_call c st) = vFileSystem st" "events (log_call c st) = events st"
  "trace (log_call c st) = trace st @ [c]"
  by (simp_all add: log_call_def)

lemma snd_backend_call_frame [simp]:
  "vFileSystem (snd (backend_call be c st)) = vFileSystem st"
  by (simp add: backend_call_def)


















text \<open>
  The JesFs read need not return: against a backend that answers every \<open>fs_info\<close> with 2
  (not active, not 0) the loop goes on for ever.
\<close>

lemma jes_scan_never_returns:
  "jes_scan (be_const 2) st fno = None"
proof (cases "jes_scan (be_const 2) st fno")
  case None
  then show ?thesis .
next
  case (Some y)
  have "be_const 2 \<noteq> be_const 2"
  proof (rule jes_scan.raw_induct [where P = "\<lambda>be st fno y. be \<noteq> be_const 2", OF _ Some])
    fix f :: "backend \<Rightarrow> vfs_state \<Rightarrow> u16 \<Rightarrow> (string option \<times> u16 \<times> vfs_state) option"
    fix be st fno y
    assume ih: "\<And>be st fno y. f be st fno = Some y \<Longrightarrow> be \<noteq> be_const 2"
      and b: "(let c = JesFs (Fs_info fno); fname = stored be (trace st) c;
            res = int16 (rc be (trace st) c); st = log_call c st
        in if res AND FS_STAT_ACTIVE \<noteq> 0 then Some (Some fname, fno + 1, st)
           else if res \<noteq> 0 then f be st (fno + 1)
                else Some (None, fno + 1, st)) = Some y"
    show "be \<noteq> be_const 2"
    proof
      assume e: "be = be_const 2"
      have "int16 2 = 2" by (simp add: int16_def)
      with b e have "f be (log_call (JesFs (Fs_info fno)) st) (fno + 1) = Some y"
        by (simp add: Let_def be_const_def FS_STAT_ACTIVE_def)
      from ih [OF this] e show False by simp
    qed
  qed
  then show ?thesis by simp
qed













section \<open>Operations on paths (vfs.c)\<close>

text \<open>
  The operations that take a path: each resolves it first and returns the resolver's error
  when there is none, then hands it to the backend of the entry.  What they store for the
  caller (\<open>label\<close>, the fields of \<open>info\<close>) is not part of the model, except the size
  \<open>vfs_stat\<close> reports, which the checksum reads; a field the backend filled in is a call
  where the model uses its value.  \<open>FF_MAX_SS\<close> is FatFs's (ffconf.h, 512 unless configured
  otherwise), \<open>AM_HID\<close> and \<open>AM_SYS\<close> are ff.h's.  The builds are the ones with
  \<open>FF_USE_LABEL\<close> and without \<open>MTP_EVENTS\<close> and \<open>FATFS_CREATE_DT\<close>.  \<open>int64\<close> is the conversion
  to \<open>int64_t\<close>.
\<close>

definition FF_MAX_SS :: int where "FF_MAX_SS = 512"


definition is_root_path :: "string \<Rightarrow> bool" where
  "is_root_path p =
     (peek p = NUL \<or> (peek p = CHR ''/'' \<and> peek (drop 1 p) = NUL))"

definition has_slash :: "string \<Rightarrow> bool" where
  "has_slash p = (CHR ''/'' \<in> set (takeWhile (\<lambda>c. c \<noteq> NUL) p))"




text \<open>
  \<open>vfs_stat\<close> clears \<open>info\<close> first; the result here is the return value and \<open>info->size\<close>.
  For a file that exists the name is copied from behind the last slash of the path,
  \<open>strrchr(path, '/') + 1\<close>: on a path without a slash that is the address 1, \<open>None\<close>.  The
  size littlefs reports is unsigned, so the test \<open>fno.size >= 0\<close> holds for every answer.
  The FatFs case reads \<open>path[namelen]\<close>, which is behind the terminator of a path shorter
  than the drive name (one the resolver took for the only drive); the littlefs case hands
  \<open>&path[namelen + 1]\<close> of the path \<open>_lfs_fix_path\<close> returned to \<open>lfs_stat\<close>.
\<close>

definition stat_fatfs ::
  "backend \<Rightarrow> vfs_state \<Rightarrow> FileSystem_t \<Rightarrow> string \<Rightarrow> (int \<times> 64 word \<times> vfs_state) option" where
  "stat_fatfs be st e p =
     (case str_at p (namelen e) of
        None \<Rightarrow> None
      | Some rest \<Rightarrow>
     (let c0 = peek rest; c1 = peek (drop 1 rest) in
      if c0 = NUL \<or> (c0 = CHR ''/'' \<and> c1 = NUL) \<or> (c0 = CHR 0x5C \<and> c1 = NUL) then
        (let (r, st) = backend_call be (FatFs (F_getfree p)) st;
             ret = ff_errno r
         in if ret = 0 then
              (let (r, st) = backend_call be (FatFs (F_getlabel p)) st;
                   (cs, st) = backend_call be (FatFs F_csize) st;
                   (nf, st) = backend_call be (FatFs F_n_fatent) st;
                   (nc, st) = backend_call be (FatFs F_nclst) st;
                   blocksize = (word_of_int (uint (word_of_int cs :: u16) * FF_MAX_SS) :: u32);
                   blocks = (word_of_int nf - 2 :: u32)
               in Some (ret, ucast (blocks - word_of_int nc) * ucast blocksize, st))
            else Some (ret, 0, st))
      else
        (let (r, st) = backend_call be (FatFs (F_stat p)) st;
             ret = ff_errno r
         in if ret = 0 then
              (if has_slash p then
                 (let (sz, st) = backend_call be (FatFs Fno_fsize) st
                  in Some (ret, ucast (word_of_int sz :: u32), st))
               else None)
            else Some (ret, 0, st))))"

definition stat_lfs ::
  "backend \<Rightarrow> vfs_state \<Rightarrow> FileSystem_t \<Rightarrow> nat \<Rightarrow> string \<Rightarrow> (int \<times> 64 word \<times> vfs_state) option" where
  "stat_lfs be st e i p =
     (case lfs_fix_path e p of
        None \<Rightarrow> None
      | Some p \<Rightarrow>
          if is_root_path p then
            (let (r, st) = backend_call be (LittleFs i Lfs_fs_size) st;
                 fsz = (word_of_int r :: u32)
             in if 0 \<le> uint fsz then
                  (let (bs, st) = backend_call be (LittleFs i Lfs_cfg_block_size) st
                   in Some (0, ucast fsz * ucast (word_of_int bs :: u32), st))
                else Some (- ENOENT, 0, st))
          else
            (case str_at p (namelen e + 1) of
               None \<Rightarrow> None
             | Some q \<Rightarrow>
                 (let (ret, st) = backend_call be (LittleFs i (Lfs_stat q)) st
                  in if 0 \<le> ret then
                       (if has_slash p then
                          (let (sz, st) = backend_call be (LittleFs i Lfs_info_size) st;
                               (r, st) = backend_call be (LittleFs i (Lfs_getattr q LFS_ATTR_CREATE)) st;
                               (r, st) = backend_call be (LittleFs i (Lfs_getattr q LFS_ATTR_MODIFY)) st
                           in Some (0, ucast (word_of_int sz :: u32), st))
                        else None)
                     else Some (ret, 0, st))))"

definition stat_jesfs ::
  "backend \<Rightarrow> vfs_state \<Rightarrow> FileSystem_t \<Rightarrow> string \<Rightarrow> (int \<times> 64 word \<times> vfs_state) option" where
  "stat_jesfs be st e p =
     (case jes_fix_path e p of
        None \<Rightarrow> None
      | Some p \<Rightarrow>
          if is_root_path p then
            (let (t, st) = backend_call be (JesFs Sflash_total_size) st;
                 (a, st) = backend_call be (JesFs Sflash_available_size) st
             in Some (0, ucast (word_of_int t - word_of_int a :: u32), st))
          else
            (let (r, st) = backend_call be (JesFs (Fs_open p [SF_OPEN_READ])) st;
                 ret = jes_errno (word_of_int r)
             in if ret = 0 then
                  (let (len, st) = backend_call be (JesFs Jes_file_len) st;
                       (r, st) = backend_call be (JesFs Fs_close) st
                   in Some (0, ucast (word_of_int len :: u32), st))
                else Some (ret, 0, st)))"

definition vfs_stat ::
  "backend \<Rightarrow> vfs_state \<Rightarrow> string option \<Rightarrow> (int \<times> 64 word \<times> vfs_state) option" where
  "vfs_stat be st path =
     (let i = vfs_find_entry (vFileSystem st) path False in
      if i < 0 then Some (i, 0, st)
      else
        (let e = vFileSystem st ! nat i; p = the path in
         case fstype e of
           FS_FATFS \<Rightarrow> stat_fatfs be st e p
         | FS_LITTLEFS \<Rightarrow> stat_lfs be st e (nat i) p
         | FS_JESFS \<Rightarrow> stat_jesfs be st e p
         | _ \<Rightarrow> Some (- ENOENT, 0, st)))"












lemma find_entry_null [simp]: "vfs_find_entry tab None force = - ENOENT"
  by (simp add: vfs_find_entry_def)

lemma ENOENT_pos [simp]: "0 < ENOENT"
  by (simp add: ENOENT_def)










section \<open>Checksum (CRC_FUNC and vfs_crc, vfs.c)\<close>

text \<open>
  \<open>CRC_FUNC(pCrc, pUint32, vLen, vInit)\<close>: the words are the list, \<open>vLen\<close> its length, the
  result the new value of \<open>*pCrc\<close>, which is not null here.  \<open>crc_round\<close> is one of the eight
  lines of the loop body, \<open>crc_word\<close> the body.
\<close>

definition CrcTable :: "u32 list" where
  "CrcTable =
     [0x00000000, 0x04C11DB7, 0x09823B6E, 0x0D4326D9, 0x130476DC, 0x17C56B6B, 0x1A864DB2, 0x1E475005,
      0x2608EDB8, 0x22C9F00F, 0x2F8AD6D6, 0x2B4BCB61, 0x350C9B64, 0x31CD86D3, 0x3C8EA00A, 0x384FBDBD]"

definition crc_round :: "u32 \<Rightarrow> u32" where
  "crc_round c = push_bit 4 c XOR CrcTable ! unat (drop_bit 28 c)"

definition crc_word :: "u32 \<Rightarrow> u32 \<Rightarrow> u32" where
  "crc_word c w =
     crc_round (crc_round (crc_round (crc_round
       (crc_round (crc_round (crc_round (crc_round (c XOR w))))))))"

definition CRC_FUNC :: "u32 \<Rightarrow> u32 list \<Rightarrow> bool \<Rightarrow> u32" where
  "CRC_FUNC pCrc pUint32 vInit = foldl crc_word (if vInit then 0xFFFFFFFF else pCrc) pUint32"

text \<open>
  \<open>vfs_file_read\<close>.  A read takes the next chunk of the handle's \<open>stream\<close>: the backend's
  error code, or a value that is not negative for a read that worked, and the bytes it
  stored, of which there are at most \<open>size\<close> (written \<open>sz\<close>); the number of bytes a successful
  read reports is the number it stored.  The result is a \<open>size_t\<close>.  JesFs's \<open>fs_read\<close>
  returns an \<open>int32_t\<close> that \<open>_jes_errno\<close> takes as an \<open>int16_t\<close>.
\<close>

definition next_chunk :: "VfsFile_t \<Rightarrow> nat \<Rightarrow> (int \<times> string) \<times> VfsFile_t" where
  "next_chunk file sz =
     (case stream file of
        [] \<Rightarrow> ((0, []), file)
      | (res, d) # es \<Rightarrow> ((res, take sz d), file\<lparr>stream := es\<rparr>))"

definition vfs_file_read ::
  "backend \<Rightarrow> vfs_state \<Rightarrow> VfsFile_t \<Rightarrow> nat \<Rightarrow> (u32 \<times> string \<times> VfsFile_t \<times> vfs_state) option" where
  "vfs_file_read be st file sz =
     (case filesys file of
        NullFs \<Rightarrow> None
      | RootFs \<Rightarrow> Some (0, [], file, st)
      | Drive i \<Rightarrow>
          (case fstype (vFileSystem st ! i) of
             FS_FATFS \<Rightarrow>
               (let ((res, d), file) = next_chunk file sz;
                    st = log_call (FatFs (F_read sz)) st;
                    ret = (word_of_int (ff_errno res) :: u32)
                in Some (if ret = 0 then word_of_nat (length d) else ret, d, file, st))
           | FS_LITTLEFS \<Rightarrow>
               (let ((res, d), file) = next_chunk file sz;
                    st = log_call (LittleFs i (Lfs_file_read sz)) st
                in Some (word_of_int (if res < 0 then res else int (length d)), d, file, st))
           | FS_JESFS \<Rightarrow>
               (let ((res, d), file) = next_chunk file sz;
                    st = log_call (JesFs (Fs_read sz)) st
                in Some (word_of_int
                           (jes_errno (word_of_int (if res < 0 then res else int (length d)))),
                         d, file, st))
           | _ \<Rightarrow> Some (0, [], file, st)))"

text \<open>
  \<open>vfs_crc\<close>.  \<open>le_words\<close> is the cast of the byte buffer to \<open>uint32_t*\<close> on a little-endian
  machine.  \<open>crc_chunk\<close> is the body of the \<open>while\<close> loop: the \<open>memset\<close> behind the bytes read
  and the call of \<open>CRC_FUNC\<close> with \<open>ret / sizeof(uint32_t)\<close> words.  \<open>crc_loop\<close> is the loop; the
  \<open>size_t\<close> read result is assigned to the \<open>int ret\<close>.  The handle and \<open>info\<close> share the
  union \<open>x\<close>; the size is folded before the handle is opened.
\<close>

fun le_words :: "string \<Rightarrow> u32 list" where
  "le_words (a # b # c # d # bs) =
     (word_of_nat (of_char a) OR push_bit 8 (word_of_nat (of_char b))
      OR push_bit 16 (word_of_nat (of_char c)) OR push_bit 24 (word_of_nat (of_char d)))
     # le_words bs"
| "le_words bs = []"

definition crc_chunk :: "u32 \<Rightarrow> string \<Rightarrow> int \<Rightarrow> u32" where
  "crc_chunk crc d ret =
     (let buf = (if ret < 128 then take (nat ret) d @ replicate (128 - nat ret) NUL else d)
      in CRC_FUNC crc (take (nat ret div 4) (le_words buf)) False)"

lemma file_read_progress:
  assumes "vfs_file_read be st file sz = Some (r, d, file', st')" and "r \<noteq> 0"
  shows "length (stream file') < length (stream file)"
proof (cases "stream file")
  case Nil
  with assms show ?thesis
    by (auto simp add: vfs_file_read_def next_chunk_def Let_def ff_errno_def jes_errno_def
          split: fsref.splits Fs_t.splits)
next
  case (Cons e es)
  with assms show ?thesis
    by (cases e)
       (auto simp add: vfs_file_read_def next_chunk_def Let_def split: fsref.splits Fs_t.splits)
qed

function crc_loop ::
  "backend \<Rightarrow> vfs_state \<Rightarrow> VfsFile_t \<Rightarrow> u32 \<Rightarrow> (int \<times> u32 \<times> VfsFile_t \<times> vfs_state) option" where
  "crc_loop be st file crc =
     (case vfs_file_read be st file 128 of
        None \<Rightarrow> None
      | Some (r, d, file', st') \<Rightarrow>
          if 0 < sint r then crc_loop be st' file' (crc_chunk crc d (sint r))
          else Some (sint r, crc, file', st'))"
  by pat_completeness auto
termination
proof (relation "measure (\<lambda>(be, st, file, crc). length (stream file))")
  show "wf (measure (\<lambda>(be, st, file, crc). length (stream file)))" by simp
next
  fix be st fh crc x2 r y d ya fh' st'
  assume a: "vfs_file_read be st fh 128 = Some x2" "(r, y) = x2" "(d, ya) = y"
    "(fh', st') = ya" "0 < sint r"
  then have "vfs_file_read be st fh 128 = Some (r, d, fh', st')" by auto
  moreover from a(5) have "r \<noteq> 0" by auto
  ultimately have "length (stream fh') < length (stream fh)" by (rule file_read_progress)
  then show "((be, st', fh', crc_chunk crc d (sint r)), (be, st, fh, crc))
               \<in> measure (\<lambda>(be, st, file, crc). length (stream file))"
    by simp
qed

definition vfs_crc ::
  "backend \<Rightarrow> vfs_state \<Rightarrow> string option \<Rightarrow> u32 \<Rightarrow> (int \<times> u32 \<times> vfs_state) option" where
  "vfs_crc be st path crc =
     (case vfs_stat be st path of
        None \<Rightarrow> None
      | Some (ret, sz, st) \<Rightarrow>
          if ret = 0 then
            (let crc = CRC_FUNC crc [ucast sz, ucast (drop_bit 32 sz)] True in
             case vfs_file_open be st file0 path VFS_RDONLY of
               None \<Rightarrow> None
             | Some (ret, file, st) \<Rightarrow>
                 if ret = 0 then
                   (case crc_loop be st file crc of
                      None \<Rightarrow> None
                    | Some (ret, crc, file, st) \<Rightarrow>
                        (case vfs_file_close be st file of
                           None \<Rightarrow> None
                         | Some (r, file, st) \<Rightarrow> Some (ret, crc, st)))
                 else Some (ret, crc, st))
          else Some (ret, crc, st))"

text \<open>
  A FatFs that holds one file with the given content and answers every call with success.
\<close>

definition be_file :: "string \<Rightarrow> backend" where
  "be_file content =
     \<lparr>rc = (\<lambda>h c. if c = FatFs Fno_fsize then int (length content) else 0),
      stored = (\<lambda>h c. []), listing = (\<lambda>h c. [(0, content)])\<rparr>"

declare crc_loop.simps [simp del]

lemma crc_init_all_ones: "CRC_FUNC crc [] True = 0xFFFFFFFF"
  by (simp add: CRC_FUNC_def)

lemma crc_streaming:
  "CRC_FUNC (CRC_FUNC crc ws ini) vs False = CRC_FUNC crc (ws @ vs) ini"
  by (simp add: CRC_FUNC_def)

text \<open>
  The reference for the table: one step of the bitwise division by the polynomial
  \<open>0x04C11DB7\<close>, most significant bit first.  An entry of the table is four such steps on
  its index in the top four bits.
\<close>

definition crc32_bit_step :: "u32 \<Rightarrow> u32" where
  "crc32_bit_step c = (if bit c 31 then push_bit 1 c XOR 0x04C11DB7 else push_bit 1 c)"

lemma CrcTable_polynomial:
  "map (\<lambda>i. crc32_bit_step (crc32_bit_step (crc32_bit_step (crc32_bit_step
                (push_bit 28 (word_of_nat i)))))) [0 ..< 16] = CrcTable"
  by code_simp

lemma le_words_length: "length (le_words d) = length d div 4"
  by (induction d rule: le_words.induct) simp_all

lemma div_four_step: "(4 + n) div 4 = Suc (n div 4)" for n :: nat
  by simp

lemma le_words_prefix:
  "take (length d div 4) (le_words (d @ e)) = le_words d"
  by (induction d rule: le_words.induct) (simp_all add: div_four_step)

lemma crc_chunk_drops_partial_word:
  assumes "length d \<le> 128"
  shows "crc_chunk crc d (int (length d)) = CRC_FUNC crc (le_words d) False"
proof (cases "length d < 128")
  case True
  then show ?thesis by (simp add: crc_chunk_def le_words_prefix)
next
  case False
  with assms have "length d = 128" by simp
  then show ?thesis
    using le_words_prefix [of d "[]"] by (simp add: crc_chunk_def)
qed

lemma le_words_short: "length t < 4 \<Longrightarrow> le_words t = []"
  by (cases t rule: le_words.cases) simp_all

lemma le_words_ignores_tail:
  "length d mod 4 = 0 \<Longrightarrow> length t < 4 \<Longrightarrow> le_words (d @ t) = le_words d"
  by (induction d rule: le_words.induct) (simp_all add: le_words_short)

definition crc_trace :: "call list" where
  "crc_trace =
     [FatFs (F_stat ''A:/f''), FatFs Fno_fsize, FatFs (F_open ''A:/f'' [FA_READ]),
      FatFs (F_read 128), FatFs (F_read 128), FatFs F_close]"

definition abcd_x :: "char \<Rightarrow> string" where
  "abcd_x x = ''abcd'' @ [x]"

definition crc_st :: "nat \<Rightarrow> vfs_state" where
  "crc_st n = st_A\<lparr>trace := take n crc_trace\<rparr>"

definition crc_file :: "(int \<times> string) list \<Rightarrow> VfsFile_t" where
  "crc_file es = file0\<lparr>filesys := Drive 0, stream := es\<rparr>"

lemma crc_stat_step:
  "vfs_stat (be_file (abcd_x x)) st_A (Some ''A:/f'') = Some (0, 5, crc_st 2)"
  by code_simp

lemma crc_open_step:
  "vfs_file_open (be_file (abcd_x x)) (crc_st 2) file0 (Some ''A:/f'') VFS_RDONLY
     = Some (0, crc_file [(0, abcd_x x)], crc_st 3)"
  by code_simp

lemma crc_read_step:
  "vfs_file_read (be_file (abcd_x x)) (crc_st 3) (crc_file [(0, abcd_x x)]) 128
     = Some (5, abcd_x x, crc_file [], crc_st 4)"
  by code_simp

lemma crc_read_end:
  "vfs_file_read (be_file (abcd_x x)) (crc_st 4) (crc_file []) 128
     = Some (0, [], crc_file [], crc_st 5)"
  by code_simp

lemma crc_close_step:
  "vfs_file_close (be_file (abcd_x x)) (crc_st 5) (crc_file [])
     = Some (0, file0, crc_st 6)"
  by code_simp

lemma crc_chunk_step:
  "crc_chunk c (abcd_x x) 5 = CRC_FUNC c [0x64636261] False"
  by code_simp

lemma crc_loop_run:
  "crc_loop (be_file (abcd_x x)) (crc_st 3) (crc_file [(0, abcd_x x)]) c
     = Some (0, CRC_FUNC c [0x64636261] False, crc_file [], crc_st 5)"
proof -
  have "crc_loop (be_file (abcd_x x)) (crc_st 4) (crc_file []) (CRC_FUNC c [0x64636261] False)
          = Some (0, CRC_FUNC c [0x64636261] False, crc_file [], crc_st 5)"
    by (subst crc_loop.simps) (simp add: crc_read_end)
  then show ?thesis
    by (subst crc_loop.simps) (simp add: crc_read_step crc_chunk_step)
qed

text \<open>
  Claim C8 (whole-file checksum), at a file whose length is not a multiple of four.  The
  file \<open>A:/f\<close> holds the four bytes \<open>abcd\<close> and a fifth byte \<open>x\<close>.  \<open>vfs_crc\<close> starts from all
  ones whatever the caller's value was, folds the two words of the size 5 and the word
  \<open>abcd\<close>, and returns: the result is the same for every \<open>x\<close>.  The read delivers 5 bytes,
  the buffer is cleared behind them, and \<open>CRC_FUNC\<close> is given \<open>5 / 4 = 1\<close> word; the padded
  word that holds the fifth byte (\<open>0x45\<close> for \<open>E\<close>) is not among the words folded, and
  folding it would give another value.
\<close>

theorem C8_trailing_bytes_not_folded:
  "vfs_crc (be_file (abcd_x x)) st_A (Some ''A:/f'') crc
     = Some (0, CRC_FUNC 0 [5, 0, 0x64636261] True, crc_st 6)
   \<and> le_words (''abcdE'' @ replicate 3 NUL) = [0x64636261, 0x45]
   \<and> CRC_FUNC 0 [5, 0, 0x64636261, 0x45] True \<noteq> CRC_FUNC 0 [5, 0, 0x64636261] True"
proof -
  have a: "vfs_crc (be_file (abcd_x x)) st_A (Some ''A:/f'') crc
     = Some (0, CRC_FUNC (CRC_FUNC crc [5, 0] True) [0x64636261] False, crc_st 6)"
    by (simp add: vfs_crc_def crc_stat_step crc_open_step crc_loop_run crc_close_step)
  have b: "CRC_FUNC (CRC_FUNC crc [5, 0] True) [0x64636261] False
             = CRC_FUNC 0 [5, 0, 0x64636261] True"
    by (simp add: CRC_FUNC_def)
  have c: "le_words (''abcdE'' @ replicate 3 NUL) = [0x64636261, 0x45]" by code_simp
  have d: "CRC_FUNC 0 [5, 0, 0x64636261, 0x45] True \<noteq> CRC_FUNC 0 [5, 0, 0x64636261] True"
    by code_simp
  from a b c d show ?thesis by simp
qed

end
